theory Spec2Isabelle
  imports Complex_Main "HOL-Library.AList"
begin

section \<open>JavaScript values and containers\<close>

text \<open>
  A \<^verbatim>\<open>Map\<close> and the own properties of an object are association lists in insertion
  order: \<^const>\<open>map_of\<close> is \<^verbatim>\<open>get\<close>, \<^const>\<open>AList.update\<close> is \<^verbatim>\<open>set\<close> (an existing key keeps
  its place, a new key goes last) and \<^const>\<open>AList.delete\<close> is \<^verbatim>\<open>delete\<close>.
\<close>

datatype jsval =
    JUndefined
  | JNull
  | JBool bool
  | JNum int
  | JStr string
  | JArr "jsval list"
  | JObj "(string \<times> jsval) list"

text \<open>Truthiness (\<^verbatim>\<open>if (v)\<close>, \<^verbatim>\<open>v ? a : b\<close>, \<^verbatim>\<open>v || w\<close>); numbers are integers here.\<close>

fun truthy :: "jsval \<Rightarrow> bool" where
  "truthy JUndefined = False"
| "truthy JNull = False"
| "truthy (JBool b) = b"
| "truthy (JNum n) = (n \<noteq> 0)"
| "truthy (JStr s) = (s \<noteq> [])"
| "truthy (JArr xs) = True"
| "truthy (JObj ps) = True"

text \<open>The decimal spelling of a number: \<^verbatim>\<open>String(n)\<close>, template literals, index keys.\<close>

definition digit_char :: "nat \<Rightarrow> char" where
  "digit_char d = char_of (48 + d)"

function decimal :: "nat \<Rightarrow> string" where
  "decimal n = (if n < 10 then [digit_char n] else decimal (n div 10) @ [digit_char (n mod 10)])"
  by pat_completeness auto
termination
  by (relation "measure (\<lambda>n. n)") auto

declare decimal.simps [simp del]

section \<open>The requester client (class Xfetch): cookie store\<close>

record cookie =
  cookie_name :: string
  cookie_value :: string

text \<open>
  The objects the cookie store handles. A property is enumerable or not; an array is an
  iterable object whose elements are enumerable index properties and whose
  \<^verbatim>\<open>length\<close> is a property that is not enumerable; an object literal is not iterable.
\<close>

datatype propval = PCookie cookie | PNum nat

record property =
  enumerable :: bool
  pvalue :: propval

record js_object =
  iterable :: bool
  props :: "(string \<times> property) list"

text \<open>The array \<^verbatim>\<open>[c0, c1, ...]\<close> of cookie objects.\<close>

definition array_object :: "cookie list \<Rightarrow> js_object" where
  "array_object cs =
     \<lparr>iterable = True,
      props = zip (map decimal [0..<length cs])
                  (map (\<lambda>c. \<lparr>enumerable = True, pvalue = PCookie c\<rparr>) cs)
              @ [(''length'', \<lparr>enumerable = False, pvalue = PNum (length cs)\<rparr>)]\<rparr>"

text \<open>
  Object spread \<^verbatim>\<open>{...o}\<close>: a fresh plain object holding the own enumerable properties
  of \<^verbatim>\<open>o\<close>.
\<close>

definition object_spread :: "js_object \<Rightarrow> js_object" where
  "object_spread obj = \<lparr>iterable = False, props = filter (\<lambda>p. enumerable (snd p)) (props obj)\<rparr>"

text \<open>
  \<^verbatim>\<open>ToLength(o.length)\<close>: a missing property is \<^verbatim>\<open>undefined\<close> and a cookie object is
  not a number; both convert to \<^verbatim>\<open>NaN\<close>, whose length is 0.
\<close>

fun ToLength :: "property option \<Rightarrow> nat" where
  "ToLength None = 0"
| "ToLength (Some p) = (case pvalue p of PNum n \<Rightarrow> n | PCookie c \<Rightarrow> 0)"

text \<open>
  \<^verbatim>\<open>Array.from(o)\<close>: the elements \<^verbatim>\<open>o[0], ..., o[len - 1]\<close> with
  \<^verbatim>\<open>len = ToLength(o.length)\<close>, both for an array (whose iterator walks the same
  indices) and for an object that is only array-like. A missing element is \<^verbatim>\<open>undefined\<close>
  (\<^const>\<open>None\<close>).
\<close>

definition Array_from :: "js_object \<Rightarrow> propval option list" where
  "Array_from obj =
     map (\<lambda>i. map_option pvalue (map_of (props obj) (decimal i)))
       [0..<ToLength (map_of (props obj) ''length'')]"

text \<open>
  A URL string together with what \<^verbatim>\<open>new URL(url).hostname\<close> yields for it; \<^const>\<open>None\<close>
  when the constructor throws a \<^verbatim>\<open>TypeError\<close> (the string is not a valid URL).
\<close>

datatype url = URL (href: string) (hostname: "string option")

datatype 'a completion = Normal 'a | Throws string 'a

text \<open>The cookie store \<^verbatim>\<open>this.cookies\<close>: a Map from hostname to the stored object.\<close>

type_synonym cookie_jar = "(string \<times> js_object) list"

text \<open>
  \<^verbatim>\<open>getCookies(url)\<close>:
  \<^verbatim>\<open>Array.from(this.cookies.get(new URL(url).hostname) || [])\<close>.
\<close>

definition getCookies :: "url \<Rightarrow> cookie_jar \<Rightarrow> propval option list option" where
  "getCookies u jar =
     (case hostname u of
        None \<Rightarrow> None
      | Some domain \<Rightarrow>
          Some (Array_from (case map_of jar domain of
                              None \<Rightarrow> array_object []
                            | Some obj \<Rightarrow> obj)))"

text \<open>
  \<^verbatim>\<open>setCookies(url, cookies)\<close>:
  \<^verbatim>\<open>this.cookies.set(new URL(url).hostname, {...cookies})\<close>.
\<close>

definition setCookies :: "url \<Rightarrow> cookie list \<Rightarrow> cookie_jar \<Rightarrow> cookie_jar option" where
  "setCookies u cs jar =
     (case hostname u of
        None \<Rightarrow> None
      | Some domain \<Rightarrow> Some (AList.update domain (object_spread (array_object cs)) jar))"

section \<open>The requester client (class Xfetch): state\<close>

datatype readyState = CONNECTING | OPEN | CLOSING | CLOSED

text \<open>
  A socket of the \<^verbatim>\<open>ws\<close> library, as far as the program looks at it: its
  \<^verbatim>\<open>readyState\<close> and the frames handed to \<^verbatim>\<open>send\<close> while it was open. Whether
  \<^verbatim>\<open>send\<close> or \<^verbatim>\<open>close\<close> raises is the library's decision; the model keeps it as two
  fields of the socket.
\<close>

record 'f websocket =
  readyState :: readyState
  sendThrows :: bool
  closeThrows :: bool
  sent :: "'f list"

definition ws_send :: "'f \<Rightarrow> 'f websocket \<Rightarrow> 'f websocket option" where
  "ws_send f w =
     (if sendThrows w then None
      else Some (if readyState w = OPEN then w\<lparr>sent := sent w @ [f]\<rparr> else w))"

definition ws_close :: "'f websocket \<Rightarrow> 'f websocket option" where
  "ws_close w =
     (if closeThrows w then None
      else Some (if readyState w = CLOSED then w else w\<lparr>readyState := CLOSING\<rparr>))"

text \<open>\<^verbatim>\<open>new WebSocket(url)\<close>: connecting, and \<^verbatim>\<open>send\<close> raises until it is open.\<close>

definition WebSocket_new :: "'f websocket" where
  "WebSocket_new = \<lparr>readyState = CONNECTING, sendThrows = True, closeThrows = False, sent = []\<rparr>"

text \<open>
  The frames the client sends: \<^verbatim>\<open>{type:'identify', clientType:'xfetch'}\<close>,
  \<^verbatim>\<open>{type:'ping'}\<close>, \<^verbatim>\<open>{type:'pong'}\<close> and \<^verbatim>\<open>{url, options, id}\<close>, the last with the
  properties the options object has when \<^verbatim>\<open>JSON.stringify\<close> reads it.
\<close>

datatype xframe =
    IdentifyFrame
  | PingFrame
  | PongFrame
  | RequestFrame url "(string \<times> jsval) list" nat

record config =
  timeout :: nat
  maxRetries :: nat
  heartbeatInterval :: nat
  queueCheckInterval :: nat

text \<open>
  The closures handed to \<^verbatim>\<open>setTimeout\<close> and \<^verbatim>\<open>setInterval\<close>, each with the variables
  it captures. A promise is named by a number (its \<^verbatim>\<open>resolve\<close> and \<^verbatim>\<open>reject\<close> always
  travel together), an options object by its address, a request id by the number of
  the \<^verbatim>\<open>uuidv4()\<close> call that made it (uuids are taken to be pairwise distinct).
\<close>

datatype timer_action =
    HeartBeat
  | QueueCheck
  | RequestTimeout nat url nat nat nat
  | SendRetry url nat nat nat
  | GiveUp url nat
  | IdentifyCheck
  | IdentifyRetry
  | Reconnect

record timer =
  delay :: nat
  repeating :: bool
  action :: timer_action

datatype outcome = Resolved jsval | Rejected string

record pending =
  p_call :: nat
  p_timeoutId :: "nat option"

record queued =
  q_url :: url
  q_options :: nat
  q_call :: nat
  q_retryCount :: nat

record xfetch =
  config :: config
  cookies :: cookie_jar
  ws :: "xframe websocket"
  isConnected :: bool
  extensionAvailable :: bool
  isIdentified :: bool
  this_pendingRequests :: "(nat \<times> pending) list"
  requestQueue :: "queued list"
  giveUpTimers :: "nat list"
  reconnectAttempts :: nat
  maxReconnectAttempts :: nat
  reconnectDelay :: nat
  isIdentifiedTimer :: "nat option"
  timers :: "(nat \<times> timer) list"
  nextTimer :: nat
  nextUuid :: nat
  heap :: "(nat \<times> (string \<times> jsval) list) list"
  promises :: "(nat \<times> outcome) list"

subsection \<open>Timers, promises, objects\<close>

definition setTimeout :: "timer_action \<Rightarrow> nat \<Rightarrow> xfetch \<Rightarrow> nat \<times> xfetch" where
  "setTimeout a d s =
     (nextTimer s,
      s\<lparr>timers := AList.update (nextTimer s) \<lparr>delay = d, repeating = False, action = a\<rparr> (timers s),
        nextTimer := Suc (nextTimer s)\<rparr>)"

definition setInterval :: "timer_action \<Rightarrow> nat \<Rightarrow> xfetch \<Rightarrow> nat \<times> xfetch" where
  "setInterval a d s =
     (nextTimer s,
      s\<lparr>timers := AList.update (nextTimer s) \<lparr>delay = d, repeating = True, action = a\<rparr> (timers s),
        nextTimer := Suc (nextTimer s)\<rparr>)"

text \<open>\<^verbatim>\<open>clearTimeout\<close> and \<^verbatim>\<open>clearInterval\<close> (Node treats them alike).\<close>

definition clearTimeout :: "nat \<Rightarrow> xfetch \<Rightarrow> xfetch" where
  "clearTimeout t s = s\<lparr>timers := AList.delete t (timers s)\<rparr>"

text \<open>
  \<^verbatim>\<open>resolve(v)\<close> and \<^verbatim>\<open>reject(e)\<close>: the first call settles the promise, later ones
  do nothing.
\<close>

definition settle :: "nat \<Rightarrow> outcome \<Rightarrow> xfetch \<Rightarrow> xfetch" where
  "settle c out s =
     (case map_of (promises s) c of
        None \<Rightarrow> s\<lparr>promises := AList.update c out (promises s)\<rparr>
      | Some _ \<Rightarrow> s)"

text \<open>The own properties of the object at an address (every address passed around is allocated).\<close>

definition object_at :: "nat \<Rightarrow> xfetch \<Rightarrow> (string \<times> jsval) list" where
  "object_at r s = (case map_of (heap s) r of None \<Rightarrow> [] | Some ps \<Rightarrow> ps)"

definition cookie_jsval :: "propval option \<Rightarrow> jsval" where
  "cookie_jsval v =
     (case v of
        None \<Rightarrow> JUndefined
      | Some (PNum n) \<Rightarrow> JNum (int n)
      | Some (PCookie c) \<Rightarrow> JObj [(''name'', JStr (cookie_name c)), (''value'', JStr (cookie_value c))])"

subsection \<open>The constructor\<close>

text \<open>\<^verbatim>\<open>options.x || d\<close> for a numeric option: absent and 0 both give the default.\<close>

definition or_default :: "nat option \<Rightarrow> nat \<Rightarrow> nat" where
  "or_default v d = (case v of None \<Rightarrow> d | Some n \<Rightarrow> if n = 0 then d else n)"

definition Xfetch_new :: "nat option \<Rightarrow> nat option \<Rightarrow> nat option \<Rightarrow> nat option \<Rightarrow> xfetch" where
  "Xfetch_new o_timeout o_maxRetries o_heartbeatInterval o_queueCheckInterval =
     (let cfg = \<lparr>timeout = or_default o_timeout 5000,
                 maxRetries = or_default o_maxRetries 3,
                 heartbeatInterval = or_default o_heartbeatInterval 15000,
                 queueCheckInterval = or_default o_queueCheckInterval 1000\<rparr>;
          s = \<lparr>config = cfg, cookies = [], ws = WebSocket_new,
               isConnected = False, extensionAvailable = False, isIdentified = False,
               this_pendingRequests = [], requestQueue = [], giveUpTimers = [],
               reconnectAttempts = 0, maxReconnectAttempts = maxRetries cfg,
               reconnectDelay = timeout cfg, isIdentifiedTimer = None,
               timers = [], nextTimer = 0, nextUuid = 0, heap = [], promises = []\<rparr>;
          s1 = snd (setInterval HeartBeat (heartbeatInterval cfg) s)
      in snd (setInterval QueueCheck (queueCheckInterval cfg) s1))"

subsection \<open>The send path\<close>

text \<open>
  \<^verbatim>\<open>options.cookiejar === true ? options.cookies = this.getCookies(url) :
  options.cookies ? options.cookies : null\<close>: an assignment into the caller's object in
  the first case, nothing otherwise. \<^verbatim>\<open>getCookies\<close> raises on an invalid URL.
\<close>

definition inject_cookies :: "url \<Rightarrow> nat \<Rightarrow> xfetch \<Rightarrow> xfetch completion" where
  "inject_cookies u options s =
     (if map_of (object_at options s) ''cookiejar'' = Some (JBool True) then
        (case getCookies u (cookies s) of
           None \<Rightarrow> Throws ''Invalid URL'' s
         | Some cs \<Rightarrow>
             Normal (s\<lparr>heap := AList.update options
                        (AList.update ''cookies'' (JArr (map cookie_jsval cs)) (object_at options s))
                        (heap s)\<rparr>))
      else Normal s)"

text \<open>
  \<^verbatim>\<open>_sendRequest(url, options, resolve, reject, retryCount)\<close>. A raise of
  \<^verbatim>\<open>ws.send\<close> is caught: the attempt's timeout is cleared and the send is tried again
  after one second, or the promise rejected when the retries are used up.
\<close>

definition sendRequest :: "url \<Rightarrow> nat \<Rightarrow> nat \<Rightarrow> nat \<Rightarrow> xfetch \<Rightarrow> xfetch completion" where
  "sendRequest u options c retryCount s =
     (let requestId = nextUuid s;
          s1 = s\<lparr>nextUuid := Suc (nextUuid s),
                 this_pendingRequests :=
                   AList.update requestId \<lparr>p_call = c, p_timeoutId = None\<rparr> (this_pendingRequests s)\<rparr>;
          (timeoutId, s2) = setTimeout (RequestTimeout requestId u options c retryCount)
                              (timeout (config s1)) s1;
          s3 = s2\<lparr>this_pendingRequests :=
                    AList.update requestId \<lparr>p_call = c, p_timeoutId = Some timeoutId\<rparr>
                      (this_pendingRequests s2)\<rparr>
      in case inject_cookies u options s3 of
           Throws e s4 \<Rightarrow> Throws e s4
         | Normal s4 \<Rightarrow>
             (case ws_send (RequestFrame u (object_at options s4) requestId) (ws s4) of
                Some w \<Rightarrow> Normal (s4\<lparr>ws := w\<rparr>)
              | None \<Rightarrow>
                  (let s5 = clearTimeout timeoutId s4
                   in if retryCount < maxRetries (config s5)
                      then Normal (snd (setTimeout (SendRetry u options c retryCount) 1000 s5))
                      else Normal (settle c
                             (Rejected (''Failed to send request after '' @
                                        decimal (maxRetries (config s5)) @
                                        '' retries: send failed'')) s5))))"

text \<open>The per-attempt timeout armed by \<^verbatim>\<open>_sendRequest\<close>.\<close>

definition requestTimeout :: "nat \<Rightarrow> url \<Rightarrow> nat \<Rightarrow> nat \<Rightarrow> nat \<Rightarrow> xfetch \<Rightarrow> xfetch completion" where
  "requestTimeout requestId u options c retryCount s =
     (let s1 = (if map_of (this_pendingRequests s) requestId \<noteq> None
                then s\<lparr>this_pendingRequests := AList.delete requestId (this_pendingRequests s)\<rparr>
                else s)
      in if retryCount < maxRetries (config s1)
         then sendRequest u options c (retryCount + 1) s1
         else Normal (settle c
                (Rejected (''Request failed after '' @ decimal (maxRetries (config s1)) @ '' retries''))
                s1))"

subsection \<open>Identification, heartbeat, queue\<close>

text \<open>\<^verbatim>\<open>sendClientIdentification()\<close>; it takes no parameters, arguments are ignored.\<close>

definition sendClientIdentification :: "xfetch \<Rightarrow> xfetch" where
  "sendClientIdentification s =
     (case ws_send IdentifyFrame (ws s) of
        Some w \<Rightarrow> s\<lparr>ws := w\<rparr>
      | None \<Rightarrow>
          (let s1 = (case isIdentifiedTimer s of None \<Rightarrow> s | Some t \<Rightarrow> clearTimeout t s);
               (t', s2) = setInterval IdentifyRetry 1000 s1
           in s2\<lparr>isIdentifiedTimer := Some t'\<rparr>))"

definition sendHeartbeat :: "xfetch \<Rightarrow> xfetch" where
  "sendHeartbeat s =
     (if isConnected s \<and> readyState (ws s) = OPEN then
        (case ws_send PingFrame (ws s) of Some w \<Rightarrow> s\<lparr>ws := w\<rparr> | None \<Rightarrow> s)
      else s)"

definition sendPong :: "xfetch \<Rightarrow> xfetch" where
  "sendPong s =
     (if isConnected s \<and> readyState (ws s) = OPEN then
        (case ws_send PongFrame (ws s) of Some w \<Rightarrow> s\<lparr>ws := w\<rparr> | None \<Rightarrow> s)
      else s)"

text \<open>\<^verbatim>\<open>queue.forEach(...)\<close>: a raise ends the loop.\<close>

fun sendQueued :: "queued list \<Rightarrow> xfetch \<Rightarrow> xfetch completion" where
  "sendQueued [] s = Normal s"
| "sendQueued (q # qs) s =
     (case sendRequest (q_url q) (q_options q) (q_call q) (q_retryCount q) s of
        Normal s' \<Rightarrow> sendQueued qs s'
      | Throws e s' \<Rightarrow> Throws e s')"

definition processQueue :: "xfetch \<Rightarrow> xfetch completion" where
  "processQueue s =
     (if requestQueue s = [] then Normal s
      else if isConnected s \<and> readyState (ws s) = OPEN \<and> extensionAvailable s then
        (let queue = requestQueue s;
             s1 = s\<lparr>requestQueue := []\<rparr>;
             s2 = (if giveUpTimers s1 \<noteq> []
                   then (fold clearTimeout (giveUpTimers s1) s1)\<lparr>giveUpTimers := []\<rparr>
                   else s1)
         in sendQueued queue s2)
      else Normal s)"

text \<open>
  \<^verbatim>\<open>reconnect()\<close>. The line comment \<^verbatim>\<open>//ignore}\<close> swallows the brace that was meant to
  close the \<^verbatim>\<open>catch\<close> block, so the new socket is made inside it: only when
  \<^verbatim>\<open>this.ws.close()\<close> raises.
\<close>

definition reconnect :: "xfetch \<Rightarrow> xfetch" where
  "reconnect s =
     (case ws_close (ws s) of
        Some w \<Rightarrow> s\<lparr>ws := w\<rparr>
      | None \<Rightarrow> s\<lparr>ws := WebSocket_new\<rparr>)"

subsection \<open>Connection events\<close>

text \<open>\<^verbatim>\<open>this.ws.onopen\<close>.\<close>

definition onopen :: "xfetch \<Rightarrow> xfetch completion" where
  "onopen s =
     (let s1 = s\<lparr>isConnected := True, reconnectAttempts := 0\<rparr>;
          s2 = (fold clearTimeout (giveUpTimers s1) s1)\<lparr>giveUpTimers := []\<rparr>
      in processQueue (sendClientIdentification s2))"

text \<open>
  The loop of \<^verbatim>\<open>onclose\<close> over \<^verbatim>\<open>Object.keys(this.pendingRequests)\<close>: clear the
  timeout, reject, delete.
\<close>

fun rejectPending :: "nat list \<Rightarrow> xfetch \<Rightarrow> xfetch" where
  "rejectPending [] s = s"
| "rejectPending (rid # ids) s =
     (case map_of (this_pendingRequests s) rid of
        None \<Rightarrow> rejectPending ids s
      | Some p \<Rightarrow>
          (let s1 = (case p_timeoutId p of None \<Rightarrow> s | Some t \<Rightarrow> clearTimeout t s);
               s2 = settle (p_call p) (Rejected ''WebSocket connection closed'') s1
           in rejectPending ids
                (s2\<lparr>this_pendingRequests := AList.delete rid (this_pendingRequests s2)\<rparr>)))"

text \<open>\<^verbatim>\<open>this.ws.onclose\<close>.\<close>

definition onclose :: "xfetch \<Rightarrow> xfetch" where
  "onclose s =
     (let s1 = s\<lparr>isConnected := False, extensionAvailable := False\<rparr>;
          s2 = rejectPending (map fst (this_pendingRequests s1)) s1
      in if reconnectAttempts s2 < maxReconnectAttempts s2 then
           (let s3 = s2\<lparr>reconnectAttempts := reconnectAttempts s2 + 1\<rparr>;
                d = reconnectDelay s3 * min (reconnectAttempts s3) 5
            in snd (setTimeout Reconnect d s3))
         else s2)"

subsection \<open>fetch and the timers it arms\<close>

text \<open>
  The interval armed by \<^verbatim>\<open>fetch\<close> while the client is not identified:
  \<^verbatim>\<open>(resolve, reject, counter = 0) => {...}\<close>. The three are parameters of the callback
  (they shadow the promise's \<^verbatim>\<open>resolve\<close> and \<^verbatim>\<open>reject\<close>); an argument not passed is
  \<^verbatim>\<open>undefined\<close> (\<^const>\<open>None\<close>), and \<^verbatim>\<open>counter\<close> then takes its default. Calling an
  \<^verbatim>\<open>undefined\<close> \<^verbatim>\<open>reject\<close> raises.
\<close>

definition identifyCheck :: "nat option \<Rightarrow> nat option \<Rightarrow> nat option \<Rightarrow> xfetch \<Rightarrow> xfetch completion" where
  "identifyCheck resolve reject counterArg s =
     (let counter = (case counterArg of None \<Rightarrow> 0 | Some n \<Rightarrow> n)
      in if counter \<ge> 3 then
           (case reject of
              None \<Rightarrow> Throws ''reject is not a function'' s
            | Some c \<Rightarrow> Normal (settle c (Rejected ''Failed to identify with server'') s))
         else Normal (sendClientIdentification s))"

text \<open>The give-up timer of a queued call.\<close>

fun findIndex :: "('a \<Rightarrow> bool) \<Rightarrow> 'a list \<Rightarrow> nat option" where
  "findIndex P [] = None"
| "findIndex P (x # xs) = (if P x then Some 0 else map_option Suc (findIndex P xs))"

definition giveUp :: "url \<Rightarrow> nat \<Rightarrow> xfetch \<Rightarrow> xfetch" where
  "giveUp u c s =
     (case findIndex (\<lambda>req. href (q_url req) = href u \<and> q_call req = c) (requestQueue s) of
        None \<Rightarrow> s
      | Some i \<Rightarrow>
          (let s1 = s\<lparr>requestQueue := take i (requestQueue s) @ drop (Suc i) (requestQueue s)\<rparr>;
               ms = decimal (timeout (config s1)) @ ''ms''
           in if isConnected s1 \<and> \<not> extensionAvailable s1 then
                settle c (Rejected (''No extension client available after '' @ ms)) s1
              else if \<not> isConnected s1 then
                settle c (Rejected (''Failed to establish WebSocket connection within '' @ ms)) s1
              else settle c (Rejected (''Request timeout after '' @ ms)) s1))"

text \<open>
  \<^verbatim>\<open>fetch(url, options)\<close> for the promise \<^verbatim>\<open>c\<close> it creates. A raise inside the
  promise's executor rejects the promise.
\<close>

definition fetch :: "url \<Rightarrow> nat \<Rightarrow> nat \<Rightarrow> xfetch \<Rightarrow> xfetch" where
  "fetch u options c s =
     (if isConnected s \<and> readyState (ws s) = OPEN \<and> extensionAvailable s \<and> isIdentified s then
        (case sendRequest u options c 0 s of
           Normal s' \<Rightarrow> s'
         | Throws e s' \<Rightarrow> settle c (Rejected e) s')
      else
        (let s1 = s\<lparr>requestQueue :=
                      requestQueue s @ [\<lparr>q_url = u, q_options = options, q_call = c, q_retryCount = 0\<rparr>]\<rparr>;
             s2 = (if \<not> isConnected s1 \<and> readyState (ws s1) \<noteq> CONNECTING then reconnect s1 else s1);
             s3 = (if \<not> isIdentified s2
                   then (let (t, s') = setInterval IdentifyCheck (timeout (config s2)) s2
                         in s'\<lparr>isIdentifiedTimer := Some t\<rparr>)
                   else s2);
             (g, s4) = setTimeout (GiveUp u c) (timeout (config s3)) s3
         in s4\<lparr>giveUpTimers := giveUpTimers s4 @ [g]\<rparr>))"

text \<open>
  A timer fires: a timeout is gone once it has fired, an interval stays. The runtime
  calls the callback with no arguments.
\<close>

definition fire :: "nat \<Rightarrow> xfetch \<Rightarrow> xfetch completion" where
  "fire t s =
     (case map_of (timers s) t of
        None \<Rightarrow> Normal s
      | Some tm \<Rightarrow>
          (let s1 = (if repeating tm then s else clearTimeout t s)
           in case action tm of
                HeartBeat \<Rightarrow> Normal (sendHeartbeat s1)
              | QueueCheck \<Rightarrow> processQueue s1
              | RequestTimeout requestId u options c retryCount \<Rightarrow>
                  requestTimeout requestId u options c retryCount s1
              | SendRetry u options c retryCount \<Rightarrow> sendRequest u options c (retryCount + 1) s1
              | GiveUp u c \<Rightarrow> Normal (giveUp u c s1)
              | IdentifyCheck \<Rightarrow> identifyCheck None None None s1
              | IdentifyRetry \<Rightarrow> Normal (sendClientIdentification s1)
              | Reconnect \<Rightarrow> Normal (reconnect s1)))"

text \<open>The state a function leaves behind, whether it returned or raised.\<close>

fun state_of :: "'a completion \<Rightarrow> 'a" where
  "state_of (Normal s) = s"
| "state_of (Throws e s) = s"

text \<open>A client made with \<^verbatim>\<open>new Xfetch(url, {maxRetries: 7})\<close>.\<close>

definition client7 :: xfetch where
  "client7 = Xfetch_new None (Some 7) None None"



definition a_test :: url where
  "a_test = URL ''https://a.test/feed'' (Some ''a.test'')"







text \<open>The correlation ids of the request frames among the frames sent.\<close>

fun request_ids :: "xframe list \<Rightarrow> nat list" where
  "request_ids [] = []"
| "request_ids (RequestFrame u ps rid # fs) = rid # request_ids fs"
| "request_ids (f # fs) = request_ids fs"

text \<open>
  What an attempt needs to go through without a raise: a socket that takes the frame, and
  a URL that parses when the cookie jar is asked for.
\<close>

definition attempt_ok :: "url \<Rightarrow> nat \<Rightarrow> xfetch \<Rightarrow> bool" where
  "attempt_ok u options s \<longleftrightarrow>
     \<not> sendThrows (ws s) \<and> readyState (ws s) = OPEN
     \<and> (map_of (object_at options s) ''cookiejar'' = Some (JBool True) \<longrightarrow> hostname u \<noteq> None)"



text \<open>
  A client whose socket has opened (so it has sent its identification) to a broker
  that stays silent: no \<^verbatim>\<open>identified\<close> frame, no availability notice. The caller's empty
  options object lives at address 0.
\<close>

definition silent_client :: xfetch where
  "silent_client =
     state_of (onopen ((Xfetch_new None None None None)
       \<lparr>ws := \<lparr>readyState = OPEN, sendThrows = False, closeThrows = False, sent = []\<rparr>,
        heap := [(0, [])]\<rparr>))"

text \<open>The silent client after one \<^verbatim>\<open>fetch\<close> of \<^verbatim>\<open>https://a.test/feed\<close>: the call is queued, the identification interval is timer 2, the give-up timeout timer 3.\<close>

definition queued_client :: xfetch where
  "queued_client =
     \<lparr>config = \<lparr>timeout = 5000, maxRetries = 3, heartbeatInterval = 15000, queueCheckInterval = 1000\<rparr>,
      cookies = [],
      ws = \<lparr>readyState = OPEN, sendThrows = False, closeThrows = False, sent = [IdentifyFrame]\<rparr>,
      isConnected = True, extensionAvailable = False, isIdentified = False,
      this_pendingRequests = [],
      requestQueue = [\<lparr>q_url = a_test, q_options = 0, q_call = 0, q_retryCount = 0\<rparr>],
      giveUpTimers = [3],
      reconnectAttempts = 0, maxReconnectAttempts = 3, reconnectDelay = 5000,
      isIdentifiedTimer = Some 2,
      timers = [(0, \<lparr>delay = 15000, repeating = True, action = HeartBeat\<rparr>),
                (1, \<lparr>delay = 1000, repeating = True, action = QueueCheck\<rparr>),
                (2, \<lparr>delay = 5000, repeating = True, action = IdentifyCheck\<rparr>),
                (3, \<lparr>delay = 5000, repeating = False, action = GiveUp a_test 0\<rparr>)],
      nextTimer = 4, nextUuid = 0, heap = [(0, [])], promises = []\<rparr>"


section \<open>The broker (socket-server.js): state\<close>

datatype clientType = Unknown | Xfetch | Extension

datatype healthStatus = healthy | degraded | critical

text \<open>
  The frames the broker sends: the welcome \<^verbatim>\<open>{type:'identify'}\<close>, \<^verbatim>\<open>ping\<close> (timestamp,
  interval), \<^verbatim>\<open>pong\<close> (timestamp), \<^verbatim>\<open>identified\<close>, the availability notice
  (\<^verbatim>\<open>extensionAvailable\<close> or \<^verbatim>\<open>extensionUnavailable\<close>, with a timestamp when
  \<^verbatim>\<open>notifyXfetchClients\<close> sends it), a requester's message passed on to an executor, an
  executor's message passed on to the requester, and \<^verbatim>\<open>{id, error, response: null}\<close>.
\<close>

record request_message =
  m_id :: string
  m_url :: string
  m_options :: jsval

record response_message =
  r_id :: string
  r_response :: jsval
  r_error :: jsval

datatype bframe =
    Welcome
  | Ping nat nat
  | Pong nat
  | Identified
  | Availability bool "nat option"
  | Forwarded request_message
  | Answer response_message
  | Failure string string

text \<open>
  A connection's socket object \<^verbatim>\<open>ws\<close>, with the \<^verbatim>\<open>clientType\<close> the broker writes on it.
  Sockets are named by the connection's id (\<^verbatim>\<open>clientId\<close>, one \<^verbatim>\<open>uuidv4()\<close> per
  connection); \<^verbatim>\<open>request.client === ws\<close> compares these names.
\<close>

record conn_socket = "bframe websocket" +
  sock_clientType :: clientType

text \<open>
  The per-connection record. It is an object shared by reference between the client
  table and the closures of its pong timeouts, so it lives at an address of its own.
\<close>

record clientData =
  client :: nat
  connectedAt :: nat
  lastActivity :: nat
  lastPingSent :: "nat option"
  lastPongReceived :: "nat option"
  awaitingPong :: bool
  missedHeartbeats :: nat
  healthStatus :: healthStatus
  pongTimeoutId :: "nat option"
  ipAddress :: string
  requestsProcessed :: nat
  requestsSucceeded :: nat
  requestsFailed :: nat
  avgResponseTime :: rat

record pendingRequest =
  pr_client :: nat
  pr_timestamp :: nat
  pr_url :: string
  pr_options :: jsval
  pr_clientId :: nat

record queueItem =
  qi_client :: nat
  qi_timestamp :: nat
  qi_url :: string
  qi_clientId :: nat
  qi_originalMessage :: request_message
  qi_timeoutId :: nat

record stats =
  stats_requestsProcessed :: nat
  stats_requestsSucceeded :: nat
  stats_requestsFailed :: nat
  totalConnections :: nat
  activeConnections :: int
  disconnections :: nat
  reconnections :: nat
  heartbeats_sent :: nat
  heartbeats_received :: nat
  heartbeats_missed :: nat

text \<open>
  The closures the broker hands to \<^verbatim>\<open>setTimeout\<close>: the pong timeout of
  \<^verbatim>\<open>sendHeartbeats\<close> (it captures the client type and the record) and the retry of
  \<^verbatim>\<open>validateExtensionClients\<close> (the message, the connection, for which \<^verbatim>\<open>ws\<close> and
  \<^verbatim>\<open>clientId\<close> are one name, and the count).
\<close>

datatype server_action =
    PongTimeout clientType nat
  | RetryValidate request_message nat nat

record server_timer =
  st_delay :: nat
  st_action :: server_action

record broker =
  sockets :: "(nat \<times> conn_socket) list"
  objects :: "(nat \<times> clientData) list"
  nextObject :: nat
  clients_extension :: "(nat \<times> nat) list"
  clients_xfetch :: "(nat \<times> nat) list"
  pendingRequests :: "(string \<times> pendingRequest) list"
  pendingRequestsQueue :: "(string \<times> queueItem) list"
  stats :: stats
  server_timers :: "(nat \<times> server_timer) list"
  server_nextTimer :: nat

text \<open>\<^verbatim>\<open>HEARTBEAT_CONFIG\<close>.\<close>

definition heartbeat_interval :: nat where "heartbeat_interval = 3000"
definition heartbeat_timeout :: nat where "heartbeat_timeout = 5000"
definition maxMissed :: nat where "maxMissed = 3"

text \<open>
  \<^verbatim>\<open>clients[clientType]\<close>. No record is ever filed under \<^verbatim>\<open>'unknown'\<close> (the table has
  no such key).
\<close>

definition clients :: "clientType \<Rightarrow> broker \<Rightarrow> (nat \<times> nat) list" where
  "clients t s = (case t of Extension \<Rightarrow> clients_extension s | Xfetch \<Rightarrow> clients_xfetch s | Unknown \<Rightarrow> [])"

definition set_clients :: "clientType \<Rightarrow> (nat \<times> nat) list \<Rightarrow> broker \<Rightarrow> broker" where
  "set_clients t m s =
     (case t of
        Extension \<Rightarrow> s\<lparr>clients_extension := m\<rparr>
      | Xfetch \<Rightarrow> s\<lparr>clients_xfetch := m\<rparr>
      | Unknown \<Rightarrow> s)"

text \<open>The \<^verbatim>\<open>readyState\<close> of a connection's socket (a socket never accepted is closed).\<close>

definition ready :: "nat \<Rightarrow> broker \<Rightarrow> readyState" where
  "ready c s = (case map_of (sockets s) c of None \<Rightarrow> CLOSED | Some w \<Rightarrow> readyState w)"

text \<open>
  \<^verbatim>\<open>client.send(frame)\<close> on the socket of connection \<^verbatim>\<open>c\<close>: \<^const>\<open>None\<close> when it raises.
\<close>

definition send_to :: "nat \<Rightarrow> bframe \<Rightarrow> broker \<Rightarrow> broker option" where
  "send_to c f s =
     (case map_of (sockets s) c of
        None \<Rightarrow> None
      | Some w \<Rightarrow>
          if sendThrows w then None
          else Some (if readyState w = OPEN
                     then s\<lparr>sockets := AList.update c (w\<lparr>sent := sent w @ [f]\<rparr>) (sockets s)\<rparr>
                     else s))"

text \<open>The frames a connection has been sent.\<close>

definition outbox :: "nat \<Rightarrow> broker \<Rightarrow> bframe list" where
  "outbox c s = (case map_of (sockets s) c of None \<Rightarrow> [] | Some w \<Rightarrow> sent w)"

definition server_setTimeout :: "server_action \<Rightarrow> nat \<Rightarrow> broker \<Rightarrow> nat \<times> broker" where
  "server_setTimeout a d s =
     (server_nextTimer s,
      s\<lparr>server_timers := AList.update (server_nextTimer s) \<lparr>st_delay = d, st_action = a\<rparr> (server_timers s),
        server_nextTimer := Suc (server_nextTimer s)\<rparr>)"

definition server_clearTimeout :: "nat \<Rightarrow> broker \<Rightarrow> broker" where
  "server_clearTimeout t s = s\<lparr>server_timers := AList.delete t (server_timers s)\<rparr>"

text \<open>Writing a field of the record at an address.\<close>

definition modify :: "nat \<Rightarrow> (clientData \<Rightarrow> clientData) \<Rightarrow> broker \<Rightarrow> broker" where
  "modify a f s =
     (case map_of (objects s) a of
        None \<Rightarrow> s
      | Some cd \<Rightarrow> s\<lparr>objects := AList.update a (f cd) (objects s)\<rparr>)"

section \<open>The broker: executor selection\<close>

text \<open>The health score of \<^verbatim>\<open>sendToExtension\<close>: 2, 1, and 0 for anything else.\<close>

definition healthScore :: "healthStatus \<Rightarrow> int" where
  "healthScore h = (if h = healthy then 2 else if h = degraded then 1 else 0)"

text \<open>
  The loop of \<^verbatim>\<open>sendToExtension\<close> over \<^verbatim>\<open>clients.extension.entries()\<close>, carrying
  \<^verbatim>\<open>bestClient\<close> and \<^verbatim>\<open>bestHealth\<close>; the \<^verbatim>\<open>break\<close> ends it at a score of 2.
\<close>

fun bestClient_loop :: "(nat \<times> nat) list \<Rightarrow> broker \<Rightarrow> nat option \<Rightarrow> int \<Rightarrow> nat option" where
  "bestClient_loop [] s bestClient bestHealth = bestClient"
| "bestClient_loop ((clientId, a) # rest) s bestClient bestHealth =
     (case map_of (objects s) a of
        None \<Rightarrow> bestClient_loop rest s bestClient bestHealth
      | Some clientData \<Rightarrow>
          if ready (client clientData) s = OPEN then
            (let score = healthScore (healthStatus clientData)
             in if score > bestHealth then
                  (if score = 2 then Some (client clientData)
                   else bestClient_loop rest s (Some (client clientData)) score)
                else bestClient_loop rest s bestClient bestHealth)
          else bestClient_loop rest s bestClient bestHealth)"

definition bestClient :: "broker \<Rightarrow> nat option" where
  "bestClient s = bestClient_loop (clients_extension s) s None (- 1)"

text \<open>
  \<^verbatim>\<open>sendToExtension(message)\<close>: the state after it and what it returns. A raise of
  \<^verbatim>\<open>send\<close> is caught and gives \<^verbatim>\<open>false\<close>.
\<close>

definition sendToExtension :: "request_message \<Rightarrow> broker \<Rightarrow> bool \<times> broker" where
  "sendToExtension message s =
     (if clients_extension s = [] then (False, s)
      else
        (case bestClient s of
           None \<Rightarrow> (False, s)
         | Some c \<Rightarrow>
             if ready c s = OPEN then
               (case send_to c (Forwarded message) s of
                  Some s' \<Rightarrow> (True, s')
                | None \<Rightarrow> (False, s))
             else (False, s)))"

text \<open>\<^verbatim>\<open>sendToXfetch(client, message)\<close>.\<close>

definition sendToXfetch :: "nat \<Rightarrow> bframe \<Rightarrow> broker \<Rightarrow> bool \<times> broker" where
  "sendToXfetch c f s =
     (if ready c s \<noteq> OPEN then (False, s)
      else (case send_to c f s of Some s' \<Rightarrow> (True, s') | None \<Rightarrow> (False, s)))"


text \<open>
  The open executors in the order the loop meets them, each with its socket and its
  score.
\<close>

fun open_executors :: "(nat \<times> nat) list \<Rightarrow> broker \<Rightarrow> (nat \<times> int) list" where
  "open_executors [] s = []"
| "open_executors ((clientId, a) # rest) s =
     (case map_of (objects s) a of
        None \<Rightarrow> open_executors rest s
      | Some clientData \<Rightarrow>
          if ready (client clientData) s = OPEN
          then (client clientData, healthScore (healthStatus clientData)) # open_executors rest s
          else open_executors rest s)"

text \<open>
  A socket is the first of the best in a list of scored sockets: nothing before it
  scores as much, nothing after it scores more.
\<close>

definition first_best :: "nat \<Rightarrow> (nat \<times> int) list \<Rightarrow> bool" where
  "first_best c xs \<longleftrightarrow>
     (\<exists>pre sc post. xs = pre @ (c, sc) # post
        \<and> list_all (\<lambda>p. snd p < sc) pre \<and> list_all (\<lambda>p. snd p \<le> sc) post)"

text \<open>An executor table for trying the selection: sockets 1 to 4, records at 11 to 14.\<close>

definition executor_record :: "nat \<Rightarrow> healthStatus \<Rightarrow> nat \<Rightarrow> clientData" where
  "executor_record c h missed =
     \<lparr>client = c, connectedAt = 0, lastActivity = 0, lastPingSent = None, lastPongReceived = None,
      awaitingPong = False, missedHeartbeats = missed, healthStatus = h, pongTimeoutId = None,
      ipAddress = ''127.0.0.1'', requestsProcessed = 0, requestsSucceeded = 0, requestsFailed = 0,
      avgResponseTime = 0\<rparr>"

definition socket_in :: "readyState \<Rightarrow> clientType \<Rightarrow> conn_socket" where
  "socket_in r t = \<lparr>readyState = r, sendThrows = False, closeThrows = False, sent = [], sock_clientType = t\<rparr>"

definition no_stats :: stats where
  "no_stats = \<lparr>stats_requestsProcessed = 0, stats_requestsSucceeded = 0, stats_requestsFailed = 0,
     totalConnections = 0, activeConnections = 0, disconnections = 0, reconnections = 0,
     heartbeats_sent = 0, heartbeats_received = 0, heartbeats_missed = 0\<rparr>"

definition mixed_executors :: broker where
  "mixed_executors =
     \<lparr>sockets = [(1, socket_in CLOSED Extension), (2, socket_in OPEN Extension),
                 (3, socket_in OPEN Extension), (4, socket_in OPEN Extension)],
      objects = [(11, executor_record 1 healthy 0), (12, executor_record 2 critical 3),
                 (13, executor_record 3 degraded 1), (14, executor_record 4 degraded 2)],
      nextObject = 15,
      clients_extension = [(1, 11), (2, 12), (3, 13), (4, 14)],
      clients_xfetch = [],
      pendingRequests = [], pendingRequestsQueue = [],
      stats = no_stats, server_timers = [], server_nextTimer = 0\<rparr>"

text \<open>The same table with only the critical executor on socket 2.\<close>

definition critical_only :: broker where
  "critical_only =
     mixed_executors\<lparr>clients_extension := [(2, 12)]\<rparr>"

definition get_feed :: request_message where
  "get_feed = \<lparr>m_id = ''r1'', m_url = ''https://a.test'', m_options = JObj []\<rparr>"

text \<open>The loop of \<^verbatim>\<open>sendToExtension\<close> again, on the list of scored sockets.\<close>

fun pick :: "(nat \<times> int) list \<Rightarrow> nat option \<Rightarrow> int \<Rightarrow> nat option" where
  "pick [] best h = best"
| "pick ((c, sc) # rest) best h =
     (if sc > h then (if sc = 2 then Some c else pick rest (Some c) sc) else pick rest best h)"


section \<open>The broker: heartbeat\<close>

text \<open>
  The body of the loop of \<^verbatim>\<open>sendHeartbeats\<close> for the record at address \<^verbatim>\<open>a\<close>. A raise
  of \<^verbatim>\<open>send\<close> is caught: the statements after it in the \<^verbatim>\<open>try\<close> block are skipped.
\<close>

definition ping_client :: "clientType \<Rightarrow> nat \<Rightarrow> nat \<Rightarrow> broker \<Rightarrow> broker" where
  "ping_client t a now s =
     (case map_of (objects s) a of
        None \<Rightarrow> s
      | Some clientData \<Rightarrow>
          if ready (client clientData) s = OPEN then
            (let s1 = modify a (\<lambda>cd. cd\<lparr>lastPingSent := Some now, awaitingPong := True\<rparr>) s
             in case send_to (client clientData) (Ping now heartbeat_interval) s1 of
                  None \<Rightarrow> s1
                | Some s2 \<Rightarrow>
                    (let s3 = s2\<lparr>stats := (stats s2)\<lparr>heartbeats_sent := heartbeats_sent (stats s2) + 1\<rparr>\<rparr>;
                         (t', s4) = server_setTimeout (PongTimeout t a) heartbeat_timeout s3
                     in modify a (\<lambda>cd. cd\<lparr>pongTimeoutId := Some t'\<rparr>) s4))
          else s)"

definition sendHeartbeats :: "clientType \<Rightarrow> nat \<Rightarrow> broker \<Rightarrow> broker" where
  "sendHeartbeats t now s = fold (\<lambda>entry. ping_client t (snd entry) now) (clients t s) s"

text \<open>What the pong timeout writes into the record when it finds the ping unanswered.\<close>

definition missed_pong :: "clientData \<Rightarrow> clientData" where
  "missed_pong cd =
     cd\<lparr>missedHeartbeats := missedHeartbeats cd + 1,
        awaitingPong := False,
        healthStatus := (if missedHeartbeats cd + 1 \<ge> maxMissed then critical else degraded)\<rparr>"

text \<open>The callback of the pong timeout, for the record it captured.\<close>

definition pongTimeout :: "nat \<Rightarrow> broker \<Rightarrow> broker" where
  "pongTimeout a s =
     (case map_of (objects s) a of
        None \<Rightarrow> s
      | Some clientData \<Rightarrow>
          if awaitingPong clientData \<and> ready (client clientData) s = OPEN then
            (modify a missed_pong s)
              \<lparr>stats := (stats s)\<lparr>heartbeats_missed := heartbeats_missed (stats s) + 1\<rparr>\<rparr>
          else s)"

text \<open>What \<^verbatim>\<open>handlePongResponse\<close> writes into the record.\<close>

definition pong_received :: "nat \<Rightarrow> clientData \<Rightarrow> clientData" where
  "pong_received now cd =
     cd\<lparr>pongTimeoutId := None,
        awaitingPong := False,
        lastPongReceived := Some now,
        lastActivity := now,
        healthStatus := (if missedHeartbeats cd > 0 \<and> missedHeartbeats cd < maxMissed
                         then healthy else healthStatus cd),
        missedHeartbeats := 0\<rparr>"

text \<open>\<^verbatim>\<open>handlePongResponse(ws, clientId)\<close> for connection \<^verbatim>\<open>c\<close> at time \<^verbatim>\<open>now\<close>.\<close>

definition handlePongResponse :: "nat \<Rightarrow> nat \<Rightarrow> broker \<Rightarrow> broker" where
  "handlePongResponse c now s =
     (case map_of (sockets s) c of
        None \<Rightarrow> s
      | Some w \<Rightarrow>
          (case map_of (clients (sock_clientType w) s) c of
             None \<Rightarrow> s
           | Some a \<Rightarrow>
               (case map_of (objects s) a of
                  None \<Rightarrow> s
                | Some clientData \<Rightarrow>
                    (let s1 = (case pongTimeoutId clientData of
                                 None \<Rightarrow> s
                               | Some t \<Rightarrow> server_clearTimeout t s);
                         s2 = modify a (pong_received now) s1
                     in s2\<lparr>stats := (stats s2)\<lparr>heartbeats_received := heartbeats_received (stats s2) + 1\<rparr>\<rparr>))))"

text \<open>
  The body of the loop of \<^verbatim>\<open>checkClientHealth\<close> for one entry. \<^verbatim>\<open>terminate()\<close> leaves
  the socket closing; a raise of it is swallowed.
\<close>

definition purge_requests :: "nat \<Rightarrow> broker \<Rightarrow> broker" where
  "purge_requests c s =
     s\<lparr>pendingRequests := filter (\<lambda>e. pr_client (snd e) \<noteq> c) (pendingRequests s),
       stats := (stats s)\<lparr>stats_requestsFailed :=
                  stats_requestsFailed (stats s)
                  + length (filter (\<lambda>e. pr_client (snd e) = c) (pendingRequests s))\<rparr>\<rparr>"

definition terminate :: "nat \<Rightarrow> broker \<Rightarrow> broker" where
  "terminate c s =
     (case map_of (sockets s) c of
        None \<Rightarrow> s
      | Some w \<Rightarrow> s\<lparr>sockets := AList.update c (w\<lparr>readyState := CLOSING\<rparr>) (sockets s)\<rparr>)"

definition check_client :: "clientType \<Rightarrow> nat \<Rightarrow> nat \<Rightarrow> broker \<Rightarrow> broker" where
  "check_client t clientId a s =
     (case map_of (objects s) a of
        None \<Rightarrow> s
      | Some clientData \<Rightarrow>
          if missedHeartbeats clientData \<ge> maxMissed then
            (let s1 = (case pongTimeoutId clientData of
                         None \<Rightarrow> s
                       | Some t \<Rightarrow> server_clearTimeout t s);
                 s2 = (if ready (client clientData) s1 = OPEN then terminate (client clientData) s1 else s1);
                 s3 = set_clients t (AList.delete clientId (clients t s2)) s2;
                 s4 = s3\<lparr>stats := (stats s3)\<lparr>disconnections := disconnections (stats s3) + 1,
                                               activeConnections := activeConnections (stats s3) - 1\<rparr>\<rparr>
             in purge_requests (client clientData) s4)
          else s)"

definition checkClientHealth :: "clientType \<Rightarrow> broker \<Rightarrow> broker" where
  "checkClientHealth t s = fold (\<lambda>entry. check_client t (fst entry) (snd entry)) (clients t s) s"

text \<open>The callback of the heartbeat interval.\<close>

definition heartbeatTick :: "nat \<Rightarrow> broker \<Rightarrow> broker" where
  "heartbeatTick now s =
     checkClientHealth Xfetch
       (checkClientHealth Extension
          (sendHeartbeats Xfetch now (sendHeartbeats Extension now s)))"

section \<open>The broker: identification and request routing\<close>

text \<open>
  \<^verbatim>\<open>notifyXfetchClients(available)\<close>; the argument is only tested for truth. A raise of
  \<^verbatim>\<open>send\<close> is caught.
\<close>

definition notify_client :: "bool \<Rightarrow> nat \<Rightarrow> nat \<Rightarrow> broker \<Rightarrow> broker" where
  "notify_client available now a s =
     (case map_of (objects s) a of
        None \<Rightarrow> s
      | Some xfetchData \<Rightarrow>
          if ready (client xfetchData) s = OPEN then
            (case send_to (client xfetchData) (Availability available (Some now)) s of
               None \<Rightarrow> s
             | Some s' \<Rightarrow> s')
          else s)"

definition notifyXfetchClients :: "bool \<Rightarrow> nat \<Rightarrow> broker \<Rightarrow> broker" where
  "notifyXfetchClients available now s =
     fold (\<lambda>entry. notify_client available now (snd entry)) (clients_xfetch s) s"

text \<open>
  \<^verbatim>\<open>handleClientIdentification\<close> for connection \<^verbatim>\<open>c\<close> announcing the type \<^verbatim>\<open>t\<close>
  (\<^verbatim>\<open>'xfetch'\<close> or \<^verbatim>\<open>'extension'\<close>). The sends are not guarded: a raise leaves the
  handler.
\<close>

definition new_clientData :: "nat \<Rightarrow> string \<Rightarrow> nat \<Rightarrow> clientData" where
  "new_clientData c ip now =
     \<lparr>client = c, connectedAt = now, lastActivity = now, lastPingSent = None,
      lastPongReceived = None, awaitingPong = False, missedHeartbeats = 0,
      healthStatus = healthy, pongTimeoutId = None, ipAddress = ip,
      requestsProcessed = 0, requestsSucceeded = 0, requestsFailed = 0, avgResponseTime = 0\<rparr>"

definition handleClientIdentification :: "nat \<Rightarrow> clientType \<Rightarrow> string \<Rightarrow> nat \<Rightarrow> broker \<Rightarrow> broker completion" where
  "handleClientIdentification c t ip now s =
     (case map_of (sockets s) c of
        None \<Rightarrow> Normal s
      | Some w \<Rightarrow>
          (let isReconnection = (sock_clientType w \<noteq> Unknown);
               s1 = s\<lparr>sockets := AList.update c (w\<lparr>sock_clientType := t\<rparr>) (sockets s)\<rparr>;
               a = nextObject s1;
               s2 = s1\<lparr>objects := AList.update a (new_clientData c ip now) (objects s1),
                       nextObject := Suc a\<rparr>;
               s3 = set_clients t (AList.update c a (clients t s2)) s2;
               s4 = (if isReconnection
                     then s3\<lparr>stats := (stats s3)\<lparr>reconnections := reconnections (stats s3) + 1\<rparr>\<rparr>
                     else s3)
           in case send_to c Identified s4 of
                None \<Rightarrow> Throws ''send failed'' s4
              | Some s5 \<Rightarrow>
                  (if t = Xfetch then
                     (case send_to c (Availability (length (clients_extension s5) = 1) None) s5 of
                        None \<Rightarrow> Throws ''send failed'' s5
                      | Some s6 \<Rightarrow> Normal s6)
                   else if t = Extension \<and> length (clients_extension s5) = 1 then
                     Normal (notifyXfetchClients True now s5)
                   else Normal s5)))"

text \<open>Adding to the counters of a requester's record, when it is still in the table.\<close>

definition count_failed :: "nat \<Rightarrow> broker \<Rightarrow> broker" where
  "count_failed clientId s =
     (case map_of (clients_xfetch s) clientId of
        None \<Rightarrow> s
      | Some a \<Rightarrow>
          modify a (\<lambda>cd. cd\<lparr>requestsProcessed := requestsProcessed cd + 1,
                              requestsFailed := requestsFailed cd + 1\<rparr>) s)"

text \<open>
  The failure branches of \<^verbatim>\<open>validateExtensionClients\<close>: drop the queue entry, tell the
  requester if its socket is open (the send is not guarded against a raise), drop the
  in-flight entry, count.
\<close>

definition fail_request :: "request_message \<Rightarrow> nat \<Rightarrow> string \<Rightarrow> broker \<Rightarrow> broker completion" where
  "fail_request message c reason s =
     (let s1 = s\<lparr>pendingRequestsQueue := AList.delete (m_id message) (pendingRequestsQueue s)\<rparr>;
          sent = (if ready c s1 = OPEN then send_to c (Failure (m_id message) reason) s1 else Some s1)
      in case sent of
           None \<Rightarrow> Throws ''send failed'' s1
         | Some s2 \<Rightarrow>
             Normal (s2\<lparr>pendingRequests := AList.delete (m_id message) (pendingRequests s2),
                        stats := (stats s2)\<lparr>stats_requestsFailed := stats_requestsFailed (stats s2) + 1,
                                              stats_requestsProcessed := stats_requestsProcessed (stats s2) + 1\<rparr>\<rparr>))"

text \<open>
  \<^verbatim>\<open>validateExtensionClients(message, ws, clientId, count)\<close> at time \<^verbatim>\<open>now\<close>, for the
  connection \<^verbatim>\<open>c\<close>. The last \<^verbatim>\<open>else\<close> of the source cannot be reached (a size is 0 or
  more).
\<close>

definition validateExtensionClients :: "request_message \<Rightarrow> nat \<Rightarrow> nat \<Rightarrow> nat \<Rightarrow> broker \<Rightarrow> broker completion" where
  "validateExtensionClients message c count now s =
     (if clients_extension s = [] \<and> count < 3 then
        (let s1 = (case map_of (pendingRequestsQueue s) (m_id message) of
                     None \<Rightarrow> s
                   | Some existingQueueItem \<Rightarrow> server_clearTimeout (qi_timeoutId existingQueueItem) s);
             (t, s2) = server_setTimeout (RetryValidate message c count) 2000 s1
         in Normal (s2\<lparr>pendingRequestsQueue :=
                         AList.update (m_id message)
                           \<lparr>qi_client = c, qi_timestamp = now, qi_url = m_url message,
                            qi_clientId = c, qi_originalMessage = message, qi_timeoutId = t\<rparr>
                           (pendingRequestsQueue s2)\<rparr>))
      else if clients_extension s = [] \<and> count \<ge> 3 then
        fail_request message c ''No extension clients available after maximum retries'' s
      else
        (case sendToExtension message s of
           (True, s1) \<Rightarrow> Normal s1
         | (False, s1) \<Rightarrow>
             (case fail_request message c ''Failed to send request to extension clients'' s1 of
                Normal s2 \<Rightarrow> Normal (count_failed c s2)
              | Throws e s2 \<Rightarrow> Throws e s2)))"

text \<open>\<^verbatim>\<open>handleXfetchRequest(ws, message, clientId)\<close>.\<close>

definition handleXfetchRequest :: "nat \<Rightarrow> request_message \<Rightarrow> nat \<Rightarrow> broker \<Rightarrow> broker completion" where
  "handleXfetchRequest c message now s =
     (let s1 = (case map_of (clients_xfetch s) c of
                  None \<Rightarrow> s
                | Some a \<Rightarrow> modify a (\<lambda>cd. cd\<lparr>lastActivity := now\<rparr>) s);
          s2 = s1\<lparr>pendingRequests :=
                    AList.update (m_id message)
                      \<lparr>pr_client = c, pr_timestamp = now, pr_url = m_url message,
                       pr_options = m_options message, pr_clientId = c\<rparr>
                      (pendingRequests s1)\<rparr>
      in validateExtensionClients message c 0 now s2)"

text \<open>
  The counters \<^verbatim>\<open>handleExtensionResponse\<close> adds to: the executor's record, and the
  requester's with its moving average of the response time.
\<close>

definition count_executor :: "bool \<Rightarrow> clientData \<Rightarrow> clientData" where
  "count_executor ok cd =
     (if ok then cd\<lparr>requestsProcessed := requestsProcessed cd + 1,
                    requestsSucceeded := requestsSucceeded cd + 1\<rparr>
      else cd\<lparr>requestsProcessed := requestsProcessed cd + 1,
              requestsFailed := requestsFailed cd + 1\<rparr>)"

definition count_requester :: "bool \<Rightarrow> rat \<Rightarrow> clientData \<Rightarrow> clientData" where
  "count_requester ok responseTime cd =
     (if ok then cd\<lparr>requestsProcessed := requestsProcessed cd + 1,
                    requestsSucceeded := requestsSucceeded cd + 1,
                    avgResponseTime := (if avgResponseTime cd = 0 then responseTime
                                        else 7 / 10 * avgResponseTime cd + 3 / 10 * responseTime)\<rparr>
      else cd\<lparr>requestsProcessed := requestsProcessed cd + 1,
              requestsFailed := requestsFailed cd + 1\<rparr>)"

text \<open>\<^verbatim>\<open>handleExtensionResponse(ws, message, clientId)\<close> for the executor connection \<^verbatim>\<open>c\<close>.\<close>

definition handleExtensionResponse :: "nat \<Rightarrow> response_message \<Rightarrow> nat \<Rightarrow> broker \<Rightarrow> broker" where
  "handleExtensionResponse c message now s =
     (let s1 = (case map_of (clients_extension s) c of
                  None \<Rightarrow> s
                | Some a \<Rightarrow> modify a (\<lambda>cd. cd\<lparr>lastActivity := now\<rparr>) s)
      in case map_of (pendingRequests s1) (r_id message) of
           None \<Rightarrow> s1
         | Some pendingRequest \<Rightarrow>
             (let xfetchClient = pr_client pendingRequest;
                  requestClientId = pr_clientId pendingRequest;
                  responseTime = of_int (int now - int (pr_timestamp pendingRequest));
                  ok = truthy (r_response message);
                  s2 = (if ready xfetchClient s1 = OPEN
                        then snd (sendToXfetch xfetchClient (Answer message) s1) else s1);
                  s3 = s2\<lparr>stats := (if ok
                          then (stats s2)\<lparr>stats_requestsProcessed := stats_requestsProcessed (stats s2) + 1,
                                           stats_requestsSucceeded := stats_requestsSucceeded (stats s2) + 1\<rparr>
                          else (stats s2)\<lparr>stats_requestsProcessed := stats_requestsProcessed (stats s2) + 1,
                                           stats_requestsFailed := stats_requestsFailed (stats s2) + 1\<rparr>)\<rparr>;
                  s4 = (case map_of (clients_extension s3) c of
                          None \<Rightarrow> s3
                        | Some a \<Rightarrow> modify a (count_executor ok) s3);
                  s5 = (case map_of (clients_xfetch s4) requestClientId of
                          None \<Rightarrow> s4
                        | Some a \<Rightarrow> modify a (count_requester ok responseTime) s4)
              in s5\<lparr>pendingRequests := AList.delete (r_id message) (pendingRequests s5)\<rparr>))"

text \<open>
  A timer of the broker fires at time \<^verbatim>\<open>now\<close>. The retry first drops the queue entry,
  then validates again with the count one higher.
\<close>

definition server_fire :: "nat \<Rightarrow> nat \<Rightarrow> broker \<Rightarrow> broker completion" where
  "server_fire t now s =
     (case map_of (server_timers s) t of
        None \<Rightarrow> Normal s
      | Some tm \<Rightarrow>
          (let s1 = server_clearTimeout t s
           in case st_action tm of
                PongTimeout ty a \<Rightarrow> Normal (pongTimeout a s1)
              | RetryValidate message c count \<Rightarrow>
                  validateExtensionClients message c (count + 1) now
                    (s1\<lparr>pendingRequestsQueue := AList.delete (m_id message) (pendingRequestsQueue s1)\<rparr>)))"

text \<open>A connection is accepted: the socket is open and is sent the welcome.\<close>

definition connection :: "nat \<Rightarrow> broker \<Rightarrow> broker completion" where
  "connection c s =
     (let s1 = s\<lparr>sockets := AList.update c (socket_in OPEN Unknown) (sockets s),
                 stats := (stats s)\<lparr>totalConnections := totalConnections (stats s) + 1,
                                      activeConnections := activeConnections (stats s) + 1\<rparr>\<rparr>
      in case send_to c Welcome s1 of
           None \<Rightarrow> Throws ''send failed'' s1
         | Some s2 \<Rightarrow> Normal s2)"

text \<open>
  A connection's \<^verbatim>\<open>'close'\<close> event at time \<^verbatim>\<open>now\<close>; the socket is closed by then. On a
  connection that never identified, \<^verbatim>\<open>clients['unknown']\<close> is \<^verbatim>\<open>undefined\<close> and the
  first statement raises. The in-flight entries of the connection are removed (nothing
  is counted here), the queued ones are not looked at.
\<close>

definition closeHandler :: "nat \<Rightarrow> nat \<Rightarrow> broker \<Rightarrow> broker completion" where
  "closeHandler c now s =
     (case map_of (sockets s) c of
        None \<Rightarrow> Normal s
      | Some w \<Rightarrow>
          (let s0 = s\<lparr>sockets := AList.update c (w\<lparr>readyState := CLOSED\<rparr>) (sockets s)\<rparr>
           in if sock_clientType w = Unknown then Throws ''clients[ws.clientType] is undefined'' s0
              else
                (let wasExtension = (sock_clientType w = Extension);
                     s1 = set_clients (sock_clientType w)
                            (AList.delete c (clients (sock_clientType w) s0)) s0;
                     s2 = s1\<lparr>pendingRequests := filter (\<lambda>e. pr_client (snd e) \<noteq> c) (pendingRequests s1)\<rparr>;
                     s3 = (if wasExtension \<and> clients_extension s2 = []
                           then notifyXfetchClients False now s2 else s2)
                 in Normal (s3\<lparr>stats := (stats s3)\<lparr>disconnections := disconnections (stats s3) + 1\<rparr>\<rparr>))))"

text \<open>
  A client's \<^verbatim>\<open>{type:'ping'}\<close> is answered at once; a raise of \<^verbatim>\<open>send\<close> is caught by the
  message handler.
\<close>

definition handlePing :: "nat \<Rightarrow> nat \<Rightarrow> broker \<Rightarrow> broker" where
  "handlePing c now s = (case send_to c (Pong now) s of None \<Rightarrow> s | Some s' \<Rightarrow> s')"

text \<open>
  The callback of the cleanup interval (every \<^verbatim>\<open>CLEANUP_INTERVAL\<close>, two minutes): in-flight
  entries older than that are deleted.
\<close>

definition cleanup_interval :: nat where "cleanup_interval = 1000 * 60 * 2"

definition cleanupTick :: "nat \<Rightarrow> broker \<Rightarrow> broker" where
  "cleanupTick now s =
     s\<lparr>pendingRequests :=
         filter (\<lambda>e. \<not> int now - int (pr_timestamp (snd e)) > int cleanup_interval) (pendingRequests s)\<rparr>"

text \<open>The broker as it starts.\<close>

definition broker_start :: broker where
  "broker_start =
     \<lparr>sockets = [], objects = [], nextObject = 0, clients_extension = [], clients_xfetch = [],
      pendingRequests = [], pendingRequestsQueue = [], stats = no_stats,
      server_timers = [], server_nextTimer = 0\<rparr>"


text \<open>
  The broker's timeline: the events it reacts to, each with the time it happens at.
\<close>

datatype server_event =
    Connect nat
  | Identify nat clientType nat
  | Request nat request_message nat
  | Response nat response_message nat
  | PongFrom nat nat
  | Tick nat
  | TimerFires nat nat
  | PingFrom nat nat
  | Close nat nat
  | Cleanup nat

fun server_step :: "server_event \<Rightarrow> broker \<Rightarrow> broker" where
  "server_step (Connect c) s = state_of (connection c s)"
| "server_step (Identify c t now) s = state_of (handleClientIdentification c t ''127.0.0.1'' now s)"
| "server_step (Request c message now) s = state_of (handleXfetchRequest c message now s)"
| "server_step (Response c message now) s = handleExtensionResponse c message now s"
| "server_step (PongFrom c now) s = handlePongResponse c now s"
| "server_step (Tick now) s = heartbeatTick now s"
| "server_step (TimerFires t now) s = state_of (server_fire t now s)"
| "server_step (PingFrom c now) s = handlePing c now s"
| "server_step (Close c now) s = state_of (closeHandler c now s)"
| "server_step (Cleanup now) s = cleanupTick now s"

definition server_run :: "server_event list \<Rightarrow> broker \<Rightarrow> broker" where
  "server_run es s = fold server_step es s"

text \<open>The health of the record filed for connection \<^verbatim>\<open>c\<close> in the executor table.\<close>

definition executor_health :: "nat \<Rightarrow> broker \<Rightarrow> healthStatus option" where
  "executor_health c s =
     (case map_of (clients_extension s) c of
        None \<Rightarrow> None
      | Some a \<Rightarrow> map_option healthStatus (map_of (objects s) a))"

text \<open>
  An executor connects and identifies, then answers no ping: heartbeat every 3 s, the
  pong timeouts 5 s after their pings, until the third miss at 11 s.
\<close>

definition silent_executor :: "server_event list" where
  "silent_executor =
     [Connect 1, Identify 1 Extension 0,
      Tick 3000, Tick 6000, TimerFires 0 8000, Tick 9000, TimerFires 1 11000,
      Tick 12000, TimerFires 2 14000]"

text \<open>
  It then sends one late pong, before the next heartbeat, and falls silent again.
\<close>

definition late_pong :: "server_event list" where
  "late_pong = [PongFrom 1 14500, Tick 15000, Tick 18000, TimerFires 4 20000]"

text \<open>
  The heartbeat state machine of one connection whose socket stays open, as the three
  handlers drive its record: a ping is sent (at a time, arming a timer), a pong is
  received, a pong timeout fires.
\<close>

datatype heartbeat_event = PingSent nat nat | PongReceived nat | PongTimeoutFired

fun heartbeat_step :: "heartbeat_event \<Rightarrow> clientData \<Rightarrow> clientData" where
  "heartbeat_step (PingSent now t) cd =
     cd\<lparr>lastPingSent := Some now, awaitingPong := True, pongTimeoutId := Some t\<rparr>"
| "heartbeat_step (PongReceived now) cd = pong_received now cd"
| "heartbeat_step PongTimeoutFired cd = (if awaitingPong cd then missed_pong cd else cd)"

text \<open>Three pings in a row, none answered.\<close>

definition three_misses :: "heartbeat_event list" where
  "three_misses =
     [PingSent 3000 0, PongTimeoutFired, PingSent 6000 1, PongTimeoutFired,
      PingSent 9000 2, PongTimeoutFired]"

text \<open>The response frames for request id \<^verbatim>\<open>r\<close> among the frames sent to a connection.\<close>

fun is_answer :: "string \<Rightarrow> bframe \<Rightarrow> bool" where
  "is_answer r (Answer m) = (r_id m = r)"
| "is_answer r f = False"

definition answers :: "string \<Rightarrow> nat \<Rightarrow> broker \<Rightarrow> bframe list" where
  "answers r c s = filter (is_answer r) (outbox c s)"

text \<open>A sequence of executor responses: who answers, what, when.\<close>

fun responses :: "(nat \<times> response_message \<times> nat) list \<Rightarrow> broker \<Rightarrow> broker" where
  "responses [] s = s"
| "responses ((e, m, now) # rs) s = responses rs (handleExtensionResponse e m now s)"

text \<open>What the first statements of \<^verbatim>\<open>handleExtensionResponse\<close> do: note the activity.\<close>

definition touch :: "nat \<Rightarrow> nat \<Rightarrow> broker \<Rightarrow> broker" where
  "touch e now s =
     (case map_of (clients_extension s) e of
        None \<Rightarrow> s
      | Some a \<Rightarrow> modify a (\<lambda>cd. cd\<lparr>lastActivity := now\<rparr>) s)"

text \<open>
  A requester (connection 2) and an executor (connection 1) are connected and
  identified; the requester's request \<^verbatim>\<open>r1\<close> is in flight with the executor.
\<close>

definition in_flight :: broker where
  "in_flight =
     server_run [Connect 1, Identify 1 Extension 0, Connect 2, Identify 2 Xfetch 10,
                 Request 2 get_feed 100] broker_start"

definition answer_r1 :: response_message where
  "answer_r1 = \<lparr>r_id = ''r1'', r_response = JObj [(''status'', JNum 200)], r_error = JUndefined\<rparr>"

definition answer_r9 :: response_message where
  "answer_r9 = \<lparr>r_id = ''r9'', r_response = JObj [(''status'', JNum 200)], r_error = JUndefined\<rparr>"

text \<open>The requester alone, submitting \<^verbatim>\<open>r1\<close> while no executor is registered.\<close>

definition waiting :: broker where
  "waiting = server_run [Connect 2, Identify 2 Xfetch 10, Request 2 get_feed 100] broker_start"

text \<open>The socket of a connection is open and takes a frame without a raise.\<close>

definition accepts :: "nat \<Rightarrow> broker \<Rightarrow> bool" where
  "accepts c s = (case map_of (sockets s) c of None \<Rightarrow> False | Some w \<Rightarrow> readyState w = OPEN \<and> \<not> sendThrows w)"

text \<open>
  A request waits in the queue: no executor is registered, the queue holds its entry,
  and the entry's timer, the one armed last, is the retry with the given count at a
  delay of 2000 ms.
\<close>

definition queued_at :: "request_message \<Rightarrow> nat \<Rightarrow> nat \<Rightarrow> nat \<Rightarrow> broker \<Rightarrow> bool" where
  "queued_at message c count t s \<longleftrightarrow>
     clients_extension s = []
     \<and> map_of (server_timers s) t = Some \<lparr>st_delay = 2000, st_action = RetryValidate message c count\<rparr>
     \<and> server_nextTimer s = Suc t
     \<and> map_option qi_timeoutId (map_of (pendingRequestsQueue s) (m_id message)) = Some t"

text \<open>The failure frames for request id \<^verbatim>\<open>r\<close> among the frames sent to a connection.\<close>

fun is_failure :: "string \<Rightarrow> bframe \<Rightarrow> bool" where
  "is_failure r (Failure r' reason) = (r' = r)"
| "is_failure r f = False"

definition failures :: "string \<Rightarrow> nat \<Rightarrow> broker \<Rightarrow> bframe list" where
  "failures r c s = filter (is_failure r) (outbox c s)"

text \<open>The requester alone, before it submits anything.\<close>

definition idle_requester :: broker where
  "idle_requester = server_run [Connect 2, Identify 2 Xfetch 10] broker_start"

text \<open>While \<^verbatim>\<open>r1\<close> waits in the queue, connection 1 is accepted (and has not identified yet).\<close>

definition executor_arrives :: broker where
  "executor_arrives = server_run [Connect 1] waiting"

text \<open>
  Request id \<^verbatim>\<open>r\<close> on the broker's timeline. It is submitted by a requester's message
  with that id; it has been dispatched once some connection was sent the message; the
  terminal frames for it are an executor's response passed on and the
  \<^verbatim>\<open>{id, error, response: null}\<close> frame; its retry timers are those armed by
  \<^verbatim>\<open>validateExtensionClients\<close> for a message with that id.
\<close>

fun submits :: "string \<Rightarrow> server_event \<Rightarrow> bool" where
  "submits r (Request c m now) = (m_id m = r)"
| "submits r ev = False"

fun is_forwarded :: "string \<Rightarrow> bframe \<Rightarrow> bool" where
  "is_forwarded r (Forwarded m) = (m_id m = r)"
| "is_forwarded r f = False"

definition dispatched :: "string \<Rightarrow> broker \<Rightarrow> bool" where
  "dispatched r s = list_ex (\<lambda>c. list_ex (is_forwarded r) (outbox c s)) (map fst (sockets s))"

definition terminals :: "string \<Rightarrow> nat \<Rightarrow> broker \<Rightarrow> bframe list" where
  "terminals r c s = filter (\<lambda>f. is_answer r f \<or> is_failure r f) (outbox c s)"

fun retry_of :: "string \<Rightarrow> server_action \<Rightarrow> bool" where
  "retry_of r (RetryValidate m c count) = (m_id m = r)"
| "retry_of r (PongTimeout t a) = False"

text \<open>
  A timeline on which the executors answer \<^verbatim>\<open>r\<close> in turn: whenever a response with that
  id arrives, the request has been dispatched.
\<close>

fun in_turn :: "string \<Rightarrow> server_event \<Rightarrow> broker \<Rightarrow> bool" where
  "in_turn r (Response e m now) s = (if r_id m = r then dispatched r s else True)"
| "in_turn r ev s = True"

fun answered_in_turn :: "string \<Rightarrow> server_event list \<Rightarrow> broker \<Rightarrow> bool" where
  "answered_in_turn r [] s = True"
| "answered_in_turn r (ev # es) s = (in_turn r ev s \<and> answered_in_turn r es (server_step ev s))"

text \<open>
  What a step that is not about \<^verbatim>\<open>r\<close> does to what the broker holds for \<^verbatim>\<open>r\<close>: the queue
  entry stays, an in-flight entry or a retry timer may go but none comes, and no
  connection is sent a frame that dispatches or ends \<^verbatim>\<open>r\<close> (a connection accepted anew
  starts with no frames).
\<close>

definition neutral :: "string \<Rightarrow> bframe \<Rightarrow> bool" where
  "neutral r f \<longleftrightarrow> \<not> is_forwarded r f \<and> \<not> is_answer r f \<and> \<not> is_failure r f"

definition marked :: "string \<Rightarrow> nat \<Rightarrow> broker \<Rightarrow> bframe list" where
  "marked r c s = filter (\<lambda>f. \<not> neutral r f) (outbox c s)"

definition calm :: "string \<Rightarrow> broker \<Rightarrow> broker \<Rightarrow> bool" where
  "calm r s s' \<longleftrightarrow>
     map_of (pendingRequestsQueue s') r = map_of (pendingRequestsQueue s) r
   \<and> (map_of (pendingRequests s') r \<noteq> None \<longrightarrow> map_of (pendingRequests s) r \<noteq> None)
   \<and> (\<forall>t tm. map_of (server_timers s') t = Some tm \<and> retry_of r (st_action tm) \<longrightarrow>
               map_of (server_timers s) t = Some tm)
   \<and> (\<forall>c. marked r c s' = marked r c s \<or> marked r c s' = [])"

text \<open>
  The two conditions a submitted id is in. Parked: it has a queue entry, its only retry
  timer is the one the entry names, and it has not been dispatched. Idle: it has no
  queue entry and no retry timer.
\<close>

definition parked :: "string \<Rightarrow> broker \<Rightarrow> bool" where
  "parked r s \<longleftrightarrow>
     (\<exists>q. map_of (pendingRequestsQueue s) r = Some q
        \<and> (\<forall>t tm. map_of (server_timers s) t = Some tm \<and> retry_of r (st_action tm) \<longrightarrow>
                    t = qi_timeoutId q))
   \<and> \<not> dispatched r s"

definition idle :: "string \<Rightarrow> broker \<Rightarrow> bool" where
  "idle r s \<longleftrightarrow>
     map_of (pendingRequestsQueue s) r = None
   \<and> (\<forall>t tm. map_of (server_timers s) t = Some tm \<longrightarrow> \<not> retry_of r (st_action tm))"

text \<open>The same with the terminal frames: none while parked, afterwards at most one, and none while the in-flight entry is there.\<close>

definition unanswered :: "string \<Rightarrow> broker \<Rightarrow> bool" where
  "unanswered r s \<longleftrightarrow> (\<forall>c. terminals r c s = [])"

definition answered_once :: "string \<Rightarrow> broker \<Rightarrow> bool" where
  "answered_once r s \<longleftrightarrow>
     (\<forall>c. length (terminals r c s) + (if map_of (pendingRequests s) r = None then 0 else 1) \<le> 1)"

text \<open>
  A requester (connection 2) submits \<^verbatim>\<open>r1\<close> while no executor is registered. An executor
  (connection 1) then identifies, and the retry timer, when it fires, dispatches the
  request; the executor answers, twice.
\<close>

definition answered_twice :: "server_event list" where
  "answered_twice =
     [Connect 2, Identify 2 Xfetch 10, Request 2 get_feed 100,
      Connect 1, Identify 1 Extension 500, TimerFires 0 2100,
      Response 1 answer_r1 2500, Response 1 answer_r1 2600]"

text \<open>
  The same submission; the executor that identifies answers \<^verbatim>\<open>r1\<close> at once, while the
  request is still queued, and closes its connection; the retry timers then fire.
\<close>

definition early_answer :: "server_event list" where
  "early_answer =
     [Connect 2, Identify 2 Xfetch 10, Request 2 get_feed 100,
      Connect 1, Identify 1 Extension 500, Response 1 answer_r1 600, Close 1 700,
      TimerFires 0 2100, TimerFires 1 4100, TimerFires 2 6100]"



text \<open>
  With the executor registered first: the requester submits \<^verbatim>\<open>r1\<close>, is answered, submits
  the same id again and is answered again.
\<close>

definition asked_twice :: "server_event list" where
  "asked_twice =
     [Connect 1, Identify 1 Extension 0, Connect 2, Identify 2 Xfetch 10,
      Request 2 get_feed 100, Response 1 answer_r1 500,
      Request 2 get_feed 600, Response 1 answer_r1 900]"


section \<open>Properties of the cookie store\<close>

lemma decimal_nonempty: "decimal n \<noteq> []"
  by (subst decimal.simps) simp

lemma digit_char_not_l: "d < 10 \<Longrightarrow> digit_char d \<noteq> CHR ''l''"
proof
  assume d: "d < 10" and e: "digit_char d = CHR ''l''"
  have "of_char (digit_char d) = ((48 + d) mod 256 :: nat)"
    by (simp add: digit_char_def)
  also have "\<dots> = 48 + d" using d by simp
  finally have "of_char (digit_char d) = (48 + d :: nat)" .
  moreover have "of_char CHR ''l'' = (108 :: nat)" by simp
  ultimately show False using d e by simp
qed

lemma decimal_digits: "c \<in> set (decimal n) \<Longrightarrow> c \<noteq> CHR ''l''"
proof (induction n arbitrary: c rule: decimal.induct)
  case (1 n)
  show ?case
  proof (cases "n < 10")
    case True
    with "1.prems" have "c = digit_char n" by (subst (asm) decimal.simps) simp
    with True show ?thesis by (simp add: digit_char_not_l)
  next
    case False
    with "1.prems" have "c \<in> set (decimal (n div 10)) \<or> c = digit_char (n mod 10)"
      by (subst (asm) decimal.simps) auto
    then show ?thesis
      using "1.IH"[OF False] digit_char_not_l[of "n mod 10"] by auto
  qed
qed

lemma decimal_not_length: "decimal n \<noteq> ''length''"
proof
  assume "decimal n = ''length''"
  then have "CHR ''l'' \<in> set (decimal n)" by simp
  then show False using decimal_digits by blast
qed

text \<open>The spread of an array keeps the index properties and loses \<^verbatim>\<open>length\<close>.\<close>

lemma props_spread_array:
  "props (object_spread (array_object cs)) =
     zip (map decimal [0..<length cs]) (map (\<lambda>c. \<lparr>enumerable = True, pvalue = PCookie c\<rparr>) cs)"
proof -
  have "\<forall>x\<in>set (zip (map decimal [0..<length cs])
                    (map (\<lambda>c. \<lparr>enumerable = True, pvalue = PCookie c\<rparr>) cs)). enumerable (snd x)"
    by (auto dest!: set_zip_rightD)
  then show ?thesis
    by (simp add: object_spread_def array_object_def)
qed

lemma spread_array_no_length:
  "map_of (props (object_spread (array_object cs))) ''length'' = None"
proof -
  have "''length'' \<notin> fst ` set (zip (map decimal [0..<length cs])
                                   (map (\<lambda>c. \<lparr>enumerable = True, pvalue = PCookie c\<rparr>) cs))"
    using decimal_not_length by (auto simp: in_set_zip)
  then show ?thesis
    by (simp add: props_spread_array map_of_eq_None_iff)
qed

lemma Array_from_spread: "Array_from (object_spread (array_object cs)) = []"
  by (simp add: Array_from_def spread_array_no_length)

text \<open>On the array itself \<^verbatim>\<open>Array.from\<close> gives the elements back.\<close>

lemma Array_from_array_example:
  "Array_from (array_object [c1, c2]) = [Some (PCookie c1), Some (PCookie c2)]"
  by (simp add: Array_from_def array_object_def decimal.simps digit_char_def upt_rec)

text \<open>
  Whatever was written for a hostname, reading that hostname gives the empty array: the
  stored object is the spread of the array, which has no \<^verbatim>\<open>length\<close>.
\<close>

lemma getCookies_after_setCookies:
  "hostname u = Some d \<Longrightarrow> hostname u' = Some d \<Longrightarrow> setCookies u cs jar = Some jar' \<Longrightarrow>
   getCookies u' jar' = Some []"
  by (auto simp: getCookies_def setCookies_def update_conv' Array_from_spread)

text \<open>
  Claim C7. After \<^verbatim>\<open>setCookies(u, cs)\<close>, \<^verbatim>\<open>getCookies(u')\<close> for a URL of the same
  hostname is to return exactly \<^verbatim>\<open>cs\<close>. The code does not: writing the one cookie
  \<^verbatim>\<open>{name: 'sid', value: '1'}\<close> for \<^verbatim>\<open>https://a.test/login\<close> into the empty store and
  reading \<^verbatim>\<open>https://a.test/feed\<close> returns the empty array.
\<close>

theorem getCookies_loses_written_cookies:
  "Option.bind
     (setCookies (URL ''https://a.test/login'' (Some ''a.test''))
        [\<lparr>cookie_name = ''sid'', cookie_value = ''1''\<rparr>] [])
     (getCookies (URL ''https://a.test/feed'' (Some ''a.test''))) = Some []"
  by (simp add: setCookies_def getCookies_def Array_from_def object_spread_def array_object_def)

section \<open>Properties of the requester client\<close>

subsection \<open>What each operation leaves alone\<close>

lemma clearTimeout_fields [simp]:
  "reconnectAttempts (clearTimeout t s) = reconnectAttempts s"
  "maxReconnectAttempts (clearTimeout t s) = maxReconnectAttempts s"
  "reconnectDelay (clearTimeout t s) = reconnectDelay s"
  "nextTimer (clearTimeout t s) = nextTimer s"
  "config (clearTimeout t s) = config s"
  "this_pendingRequests (clearTimeout t s) = this_pendingRequests s"
  "promises (clearTimeout t s) = promises s"
  "ws (clearTimeout t s) = ws s"
  "nextUuid (clearTimeout t s) = nextUuid s"
  "heap (clearTimeout t s) = heap s"
  "cookies (clearTimeout t s) = cookies s"
  "isIdentifiedTimer (clearTimeout t s) = isIdentifiedTimer s"
  "isConnected (clearTimeout t s) = isConnected s"
  "extensionAvailable (clearTimeout t s) = extensionAvailable s"
  "isIdentified (clearTimeout t s) = isIdentified s"
  "requestQueue (clearTimeout t s) = requestQueue s"
  "giveUpTimers (clearTimeout t s) = giveUpTimers s"
  "timers (clearTimeout t s) = AList.delete t (timers s)"
  by (simp_all add: clearTimeout_def)

lemma settle_fields [simp]:
  "reconnectAttempts (settle c out s) = reconnectAttempts s"
  "maxReconnectAttempts (settle c out s) = maxReconnectAttempts s"
  "reconnectDelay (settle c out s) = reconnectDelay s"
  "nextTimer (settle c out s) = nextTimer s"
  "config (settle c out s) = config s"
  "this_pendingRequests (settle c out s) = this_pendingRequests s"
  "timers (settle c out s) = timers s"
  "ws (settle c out s) = ws s"
  "nextUuid (settle c out s) = nextUuid s"
  "heap (settle c out s) = heap s"
  "cookies (settle c out s) = cookies s"
  "isIdentifiedTimer (settle c out s) = isIdentifiedTimer s"
  "isConnected (settle c out s) = isConnected s"
  "extensionAvailable (settle c out s) = extensionAvailable s"
  "isIdentified (settle c out s) = isIdentified s"
  "requestQueue (settle c out s) = requestQueue s"
  "giveUpTimers (settle c out s) = giveUpTimers s"
  by (simp_all add: settle_def split: option.splits)

lemma setTimeout_fields [simp]:
  "fst (setTimeout a d s) = nextTimer s"
  "reconnectAttempts (snd (setTimeout a d s)) = reconnectAttempts s"
  "maxReconnectAttempts (snd (setTimeout a d s)) = maxReconnectAttempts s"
  "reconnectDelay (snd (setTimeout a d s)) = reconnectDelay s"
  "nextTimer (snd (setTimeout a d s)) = Suc (nextTimer s)"
  "config (snd (setTimeout a d s)) = config s"
  "this_pendingRequests (snd (setTimeout a d s)) = this_pendingRequests s"
  "promises (snd (setTimeout a d s)) = promises s"
  "ws (snd (setTimeout a d s)) = ws s"
  "nextUuid (snd (setTimeout a d s)) = nextUuid s"
  "heap (snd (setTimeout a d s)) = heap s"
  "cookies (snd (setTimeout a d s)) = cookies s"
  "isIdentifiedTimer (snd (setTimeout a d s)) = isIdentifiedTimer s"
  "isConnected (snd (setTimeout a d s)) = isConnected s"
  "extensionAvailable (snd (setTimeout a d s)) = extensionAvailable s"
  "isIdentified (snd (setTimeout a d s)) = isIdentified s"
  "requestQueue (snd (setTimeout a d s)) = requestQueue s"
  "giveUpTimers (snd (setTimeout a d s)) = giveUpTimers s"
  "timers (snd (setTimeout a d s)) =
     AList.update (nextTimer s) \<lparr>delay = d, repeating = False, action = a\<rparr> (timers s)"
  by (simp_all add: setTimeout_def)

lemma rejectPending_fields [simp]:
  "reconnectAttempts (rejectPending ids s) = reconnectAttempts s"
  "maxReconnectAttempts (rejectPending ids s) = maxReconnectAttempts s"
  "reconnectDelay (rejectPending ids s) = reconnectDelay s"
  "nextTimer (rejectPending ids s) = nextTimer s"
  "config (rejectPending ids s) = config s"
  by (induction ids arbitrary: s; simp add: Let_def split: option.splits)+

text \<open>Rejecting the pending calls only ever removes timers.\<close>

lemma rejectPending_timers: "set (timers (rejectPending ids s)) \<subseteq> set (timers s)"
proof (induction ids arbitrary: s)
  case Nil
  then show ?case by simp
next
  case (Cons rid ids)
  have del: "\<And>t al. set (AList.delete t al) \<subseteq> set (al :: (nat \<times> timer) list)"
    by (auto simp: AList.delete_eq)
  show ?case
    using Cons.IH del by (fastforce simp: Let_def split: option.splits)
qed

subsection \<open>Reconnection backoff\<close>

lemma onclose_schedules:
  assumes "reconnectAttempts s < maxReconnectAttempts s"
  shows "map_of (timers (onclose s)) (nextTimer s) =
           Some \<lparr>delay = reconnectDelay s * min (reconnectAttempts s + 1) 5, repeating = False, action = Reconnect\<rparr>"
    and "nextTimer (onclose s) = Suc (nextTimer s)"
    and "reconnectAttempts (onclose s) = reconnectAttempts s + 1"
  using assms by (simp_all add: onclose_def Let_def update_conv')

lemma onclose_stops:
  assumes "\<not> reconnectAttempts s < maxReconnectAttempts s"
  shows "nextTimer (onclose s) = nextTimer s"
    and "reconnectAttempts (onclose s) = reconnectAttempts s"
    and "set (timers (onclose s)) \<subseteq> set (timers s)"
  using assms rejectPending_timers[of "map fst (this_pendingRequests s)" "s\<lparr>isConnected := False, extensionAvailable := False\<rparr>"]
  by (simp_all add: onclose_def Let_def)

lemma onclose_keeps [simp]:
  "maxReconnectAttempts (onclose s) = maxReconnectAttempts s"
  "reconnectDelay (onclose s) = reconnectDelay s"
  by (simp_all add: onclose_def Let_def)

lemma closes_attempts:
  "reconnectAttempts s = 0 \<Longrightarrow> reconnectAttempts ((onclose ^^ n) s) = min n (maxReconnectAttempts s)
    \<and> maxReconnectAttempts ((onclose ^^ n) s) = maxReconnectAttempts s
    \<and> reconnectDelay ((onclose ^^ n) s) = reconnectDelay s"
proof (induction n)
  case 0
  then show ?case by simp
next
  case (Suc n)
  then show ?case
    by (cases "reconnectAttempts ((onclose ^^ n) s) < maxReconnectAttempts ((onclose ^^ n) s)")
       (auto simp: onclose_schedules onclose_stops)
qed

lemma setInterval_fields [simp]:
  "fst (setInterval a d s) = nextTimer s"
  "reconnectAttempts (snd (setInterval a d s)) = reconnectAttempts s"
  "maxReconnectAttempts (snd (setInterval a d s)) = maxReconnectAttempts s"
  "reconnectDelay (snd (setInterval a d s)) = reconnectDelay s"
  "nextTimer (snd (setInterval a d s)) = Suc (nextTimer s)"
  "config (snd (setInterval a d s)) = config s"
  "this_pendingRequests (snd (setInterval a d s)) = this_pendingRequests s"
  "promises (snd (setInterval a d s)) = promises s"
  "ws (snd (setInterval a d s)) = ws s"
  "nextUuid (snd (setInterval a d s)) = nextUuid s"
  "heap (snd (setInterval a d s)) = heap s"
  "cookies (snd (setInterval a d s)) = cookies s"
  "isIdentifiedTimer (snd (setInterval a d s)) = isIdentifiedTimer s"
  "isConnected (snd (setInterval a d s)) = isConnected s"
  "extensionAvailable (snd (setInterval a d s)) = extensionAvailable s"
  "isIdentified (snd (setInterval a d s)) = isIdentified s"
  "requestQueue (snd (setInterval a d s)) = requestQueue s"
  "giveUpTimers (snd (setInterval a d s)) = giveUpTimers s"
  "timers (snd (setInterval a d s)) =
     AList.update (nextTimer s) \<lparr>delay = d, repeating = True, action = a\<rparr> (timers s)"
  by (simp_all add: setInterval_def)

lemma fold_clearTimeout_fields [simp]:
  "reconnectAttempts (fold clearTimeout ts s) = reconnectAttempts s"
  "maxReconnectAttempts (fold clearTimeout ts s) = maxReconnectAttempts s"
  "reconnectDelay (fold clearTimeout ts s) = reconnectDelay s"
  "config (fold clearTimeout ts s) = config s"
  "promises (fold clearTimeout ts s) = promises s"
  "ws (fold clearTimeout ts s) = ws s"
  "isConnected (fold clearTimeout ts s) = isConnected s"
  "extensionAvailable (fold clearTimeout ts s) = extensionAvailable s"
  "isIdentified (fold clearTimeout ts s) = isIdentified s"
  "requestQueue (fold clearTimeout ts s) = requestQueue s"
  by (induction ts arbitrary: s; simp)+

lemma sendClientIdentification_fields [simp]:
  "reconnectAttempts (sendClientIdentification s) = reconnectAttempts s"
  "maxReconnectAttempts (sendClientIdentification s) = maxReconnectAttempts s"
  "reconnectDelay (sendClientIdentification s) = reconnectDelay s"
  "config (sendClientIdentification s) = config s"
  "promises (sendClientIdentification s) = promises s"
  "requestQueue (sendClientIdentification s) = requestQueue s"
  "isIdentified (sendClientIdentification s) = isIdentified s"
  by (simp_all add: sendClientIdentification_def Let_def split_beta split: option.splits)

lemma inject_cookies_fields [simp]:
  "reconnectAttempts (state_of (inject_cookies u options s)) = reconnectAttempts s"
  "maxReconnectAttempts (state_of (inject_cookies u options s)) = maxReconnectAttempts s"
  "reconnectDelay (state_of (inject_cookies u options s)) = reconnectDelay s"
  "config (state_of (inject_cookies u options s)) = config s"
  "promises (state_of (inject_cookies u options s)) = promises s"
  "ws (state_of (inject_cookies u options s)) = ws s"
  "timers (state_of (inject_cookies u options s)) = timers s"
  "nextTimer (state_of (inject_cookies u options s)) = nextTimer s"
  "nextUuid (state_of (inject_cookies u options s)) = nextUuid s"
  "cookies (state_of (inject_cookies u options s)) = cookies s"
  "this_pendingRequests (state_of (inject_cookies u options s)) = this_pendingRequests s"
  by (simp_all add: inject_cookies_def split: option.splits)

lemma sendRequest_fields [simp]:
  "reconnectAttempts (state_of (sendRequest u options c r s)) = reconnectAttempts s"
  "maxReconnectAttempts (state_of (sendRequest u options c r s)) = maxReconnectAttempts s"
  "reconnectDelay (state_of (sendRequest u options c r s)) = reconnectDelay s"
  "config (state_of (sendRequest u options c r s)) = config s"
  "cookies (state_of (sendRequest u options c r s)) = cookies s"
  "isConnected (state_of (sendRequest u options c r s)) = isConnected s"
  "extensionAvailable (state_of (sendRequest u options c r s)) = extensionAvailable s"
  "isIdentified (state_of (sendRequest u options c r s)) = isIdentified s"
  "requestQueue (state_of (sendRequest u options c r s)) = requestQueue s"
  by (simp_all add: sendRequest_def inject_cookies_def Let_def split_beta split: option.splits)

lemma sendQueued_reconnectAttempts [simp]:
  "reconnectAttempts (state_of (sendQueued qs s)) = reconnectAttempts s"
proof (induction qs arbitrary: s)
  case Nil
  show ?case by simp
next
  case (Cons q qs)
  let ?r = "sendRequest (q_url q) (q_options q) (q_call q) (q_retryCount q) s"
  have "reconnectAttempts (state_of ?r) = reconnectAttempts s" by simp
  then show ?case using Cons.IH[of "state_of ?r"]
    by (cases ?r) (simp_all del: sendRequest_fields)
qed

lemma processQueue_reconnectAttempts [simp]:
  "reconnectAttempts (state_of (processQueue s)) = reconnectAttempts s"
  by (simp add: processQueue_def Let_def)

lemma onopen_resets: "reconnectAttempts (state_of (onopen s)) = 0"
  by (simp add: onopen_def Let_def)

lemma reconnect_keeps:
  "reconnectAttempts (reconnect s) = reconnectAttempts s"
  "maxReconnectAttempts (reconnect s) = maxReconnectAttempts s"
  "reconnectDelay (reconnect s) = reconnectDelay s"
  by (simp_all add: reconnect_def split: option.splits)

text \<open>
  Claim C9. Count the closes since the attempt counter was last 0 (a new client, or an
  open event). The \<open>n\<close>-th close in a row, while \<open>n\<close> is at most the configured maximum,
  arms one timeout for \<^verbatim>\<open>reconnect\<close> whose delay is \<open>reconnectDelay * min n 5\<close>; that
  delay never decreases with \<open>n\<close> and never exceeds \<open>5 * reconnectDelay\<close>; the open
  handler sets the counter back to 0; and once the counter has reached the maximum a
  further close arms no timer at all (the timer table only loses entries).
\<close>

theorem reconnect_backoff:
  assumes "reconnectAttempts s = 0"
  shows "(1 \<le> n \<and> n \<le> maxReconnectAttempts s \<longrightarrow>
            map_of (timers ((onclose ^^ n) s)) (nextTimer ((onclose ^^ (n - 1)) s)) =
              Some \<lparr>delay = reconnectDelay s * min n 5, repeating = False, action = Reconnect\<rparr>)
       \<and> reconnectDelay s * min n 5 \<le> reconnectDelay s * min (n + k) 5
       \<and> reconnectDelay s * min n 5 \<le> 5 * reconnectDelay s
       \<and> reconnectAttempts (state_of (onopen ((onclose ^^ n) s))) = 0
       \<and> (maxReconnectAttempts s \<le> n \<longrightarrow>
            nextTimer ((onclose ^^ Suc n) s) = nextTimer ((onclose ^^ n) s)
          \<and> set (timers ((onclose ^^ Suc n) s)) \<subseteq> set (timers ((onclose ^^ n) s)))"
proof -
  let ?c = "\<lambda>n. (onclose ^^ n) s"
  have att: "\<And>n. reconnectAttempts (?c n) = min n (maxReconnectAttempts s)"
    and mx: "\<And>n. maxReconnectAttempts (?c n) = maxReconnectAttempts s"
    and dl: "\<And>n. reconnectDelay (?c n) = reconnectDelay s"
    using closes_attempts[OF assms] by blast+
  have sched: "map_of (timers (?c n)) (nextTimer (?c (n - 1))) =
      Some \<lparr>delay = reconnectDelay s * min n 5, repeating = False, action = Reconnect\<rparr>"
    if pos: "1 \<le> n" and le: "n \<le> maxReconnectAttempts s"
  proof -
    obtain m where n: "n = Suc m" using pos by (cases n) auto
    have lt: "reconnectAttempts (?c m) < maxReconnectAttempts (?c m)"
      using le n by (simp add: att mx)
    show ?thesis
      using onclose_schedules(1)[OF lt] le n by (simp add: att dl)
  qed
  have stop: "nextTimer (?c (Suc n)) = nextTimer (?c n)
      \<and> set (timers (?c (Suc n))) \<subseteq> set (timers (?c n))"
    if ge0: "maxReconnectAttempts s \<le> n"
  proof -
    have ge: "\<not> reconnectAttempts (?c n) < maxReconnectAttempts (?c n)"
      using ge0 by (simp add: att mx)
    show ?thesis
      using onclose_stops(1,3)[OF ge] by simp
  qed
  have mono: "reconnectDelay s * min n 5 \<le> reconnectDelay s * min (n + k) 5"
    by (rule mult_le_mono2) simp
  have cap: "reconnectDelay s * min n 5 \<le> 5 * reconnectDelay s"
    by (simp add: mult.commute)
  show ?thesis
    using sched stop mono cap onopen_resets by blast
qed

theorem reconnect_backoff_witness:
  "reconnectAttempts client7 = 0
   \<and> map_of (timers ((onclose ^^ 6) client7)) (nextTimer ((onclose ^^ 5) client7)) =
        Some \<lparr>delay = 25000, repeating = False, action = Reconnect\<rparr>
   \<and> nextTimer ((onclose ^^ Suc 7) client7) = nextTimer ((onclose ^^ 7) client7)"
proof -
  have a: "reconnectAttempts client7 = 0"
    and m: "maxReconnectAttempts client7 = 7"
    and d: "reconnectDelay client7 = 5000"
    by (simp_all add: client7_def Xfetch_new_def or_default_def Let_def)
  show ?thesis
    using reconnect_backoff[OF a, of 6 0] reconnect_backoff[OF a, of 7 0] a m d by simp
qed


subsection \<open>The send path and the caller's options object\<close>













subsection \<open>Retries of an unanswered call\<close>

lemma request_ids_append [simp]: "request_ids (fs @ gs) = request_ids fs @ request_ids gs"
  by (induction fs rule: request_ids.induct) simp_all




lemma attempt_ok_cong:
  "ws s' = ws s \<Longrightarrow> heap s' = heap s \<Longrightarrow> attempt_ok u options s' = attempt_ok u options s"
  by (simp add: attempt_ok_def object_at_def)








subsection \<open>Identification that is never confirmed\<close>

lemma digit_char_values:
  "digit_char 0 = CHR ''0''" "digit_char 1 = CHR ''1''" "digit_char 2 = CHR ''2''"
  "digit_char 3 = CHR ''3''" "digit_char 4 = CHR ''4''" "digit_char 5 = CHR ''5''"
  "digit_char 6 = CHR ''6''" "digit_char 7 = CHR ''7''" "digit_char 8 = CHR ''8''"
  "digit_char 9 = CHR ''9''"
  unfolding digit_char_def by code_simp+

text \<open>The callback of the interval, called as the runtime calls it, only sends the identification again.\<close>

lemma identifyCheck_no_arguments:
  "identifyCheck None None None s = Normal (sendClientIdentification s)"
  by (simp add: identifyCheck_def)

lemma fire_IdentifyCheck:
  assumes "map_of (timers s) t = Some \<lparr>delay = d, repeating = True, action = IdentifyCheck\<rparr>"
  shows "fire t s = Normal (sendClientIdentification s)"
  using assms by (simp add: fire_def identifyCheck_def)

lemma silent_client_state:
  "silent_client =
     \<lparr>config = \<lparr>timeout = 5000, maxRetries = 3, heartbeatInterval = 15000, queueCheckInterval = 1000\<rparr>,
      cookies = [],
      ws = \<lparr>readyState = OPEN, sendThrows = False, closeThrows = False, sent = [IdentifyFrame]\<rparr>,
      isConnected = True, extensionAvailable = False, isIdentified = False,
      this_pendingRequests = [], requestQueue = [], giveUpTimers = [],
      reconnectAttempts = 0, maxReconnectAttempts = 3, reconnectDelay = 5000,
      isIdentifiedTimer = None,
      timers = [(0, \<lparr>delay = 15000, repeating = True, action = HeartBeat\<rparr>),
                (1, \<lparr>delay = 1000, repeating = True, action = QueueCheck\<rparr>)],
      nextTimer = 2, nextUuid = 0, heap = [(0, [])], promises = []\<rparr>"
  by (simp add: silent_client_def onopen_def Xfetch_new_def or_default_def Let_def setInterval_def
        sendClientIdentification_def ws_send_def processQueue_def)

lemma fetch_silent_client: "fetch a_test 0 0 silent_client = queued_client"
  by (simp add: silent_client_state queued_client_def fetch_def Let_def setInterval_def setTimeout_def)

lemma tick1: "fire 2 queued_client =
    Normal (queued_client\<lparr>ws := \<lparr>readyState = OPEN, sendThrows = False, closeThrows = False,
                                    sent = [IdentifyFrame, IdentifyFrame]\<rparr>\<rparr>)"
  by (simp add: queued_client_def fire_def identifyCheck_def sendClientIdentification_def ws_send_def)

lemma give_up: "fire 3 (queued_client\<lparr>ws := w\<rparr>) =
    Normal (queued_client\<lparr>ws := w, requestQueue := [],
              timers := [(0, \<lparr>delay = 15000, repeating = True, action = HeartBeat\<rparr>),
                (1, \<lparr>delay = 1000, repeating = True, action = QueueCheck\<rparr>),
                (2, \<lparr>delay = 5000, repeating = True, action = IdentifyCheck\<rparr>)],
              promises := [(0, Rejected (''No extension client available after '' @ decimal 5000 @ ''ms''))]\<rparr>)"
  by (simp add: queued_client_def fire_def giveUp_def clearTimeout_def settle_def Let_def)

lemma identify_ticks:
  "\<exists>fs. ((\<lambda>s. state_of (fire 2 s)) ^^ n) queued_client =
          queued_client\<lparr>ws := \<lparr>readyState = OPEN, sendThrows = False, closeThrows = False, sent = fs\<rparr>\<rparr>"
proof (induction n)
  case 0
  show ?case by (intro exI[of _ "[IdentifyFrame]"]) (simp add: queued_client_def)
next
  case (Suc n)
  then obtain fs where fs: "((\<lambda>s. state_of (fire 2 s)) ^^ n) queued_client =
      queued_client\<lparr>ws := \<lparr>readyState = OPEN, sendThrows = False, closeThrows = False, sent = fs\<rparr>\<rparr>"
    by blast
  have "fire 2 (queued_client\<lparr>ws := \<lparr>readyState = OPEN, sendThrows = False, closeThrows = False, sent = fs\<rparr>\<rparr>) =
      Normal (queued_client\<lparr>ws := \<lparr>readyState = OPEN, sendThrows = False, closeThrows = False,
                                    sent = fs @ [IdentifyFrame]\<rparr>\<rparr>)"
    by (simp add: queued_client_def fire_def identifyCheck_def sendClientIdentification_def ws_send_def)
  with fs show ?case by (intro exI[of _ "fs @ [IdentifyFrame]"]) simp
qed

text \<open>
  Claim C8. When the broker has not confirmed identification across three attempts, the
  calls queued for lack of identification are to be rejected with an identification
  failure. The code never does so. On the silent client with one queued call: however
  often the identification interval fires, the promise stays open and the call stays
  queued (each tick starts with \<^verbatim>\<open>counter\<close> at its default 0 and only sends the
  identification again); what rejects the call is its give-up timer, with
  \<^verbatim>\<open>No extension client available after 5000ms\<close>.
\<close>

theorem identification_failure_never_reported:
  "(\<forall>n. map_of (promises (((\<lambda>s. state_of (fire 2 s)) ^^ n) (fetch a_test 0 0 silent_client))) 0 = None
        \<and> requestQueue (((\<lambda>s. state_of (fire 2 s)) ^^ n) (fetch a_test 0 0 silent_client)) =
            [\<lparr>q_url = a_test, q_options = 0, q_call = 0, q_retryCount = 0\<rparr>])
   \<and> map_of (timers (fetch a_test 0 0 silent_client)) 2 =
        Some \<lparr>delay = 5000, repeating = True, action = IdentifyCheck\<rparr>
   \<and> map_of (timers (fetch a_test 0 0 silent_client)) 3 =
        Some \<lparr>delay = 5000, repeating = False, action = GiveUp a_test 0\<rparr>
   \<and> map_of (promises (state_of (fire 3 (state_of (fire 2 (fetch a_test 0 0 silent_client)))))) 0 =
        Some (Rejected ''No extension client available after 5000ms'')"
proof -
  have ticks: "map_of (promises (((\<lambda>s. state_of (fire 2 s)) ^^ n) queued_client)) 0 = None
      \<and> requestQueue (((\<lambda>s. state_of (fire 2 s)) ^^ n) queued_client) =
            [\<lparr>q_url = a_test, q_options = 0, q_call = 0, q_retryCount = 0\<rparr>]" for n
  proof -
    obtain fs where "((\<lambda>s. state_of (fire 2 s)) ^^ n) queued_client =
          queued_client\<lparr>ws := \<lparr>readyState = OPEN, sendThrows = False, closeThrows = False, sent = fs\<rparr>\<rparr>"
      using identify_ticks[of n] ..
    moreover have "promises queued_client = []"
      "requestQueue queued_client = [\<lparr>q_url = a_test, q_options = 0, q_call = 0, q_retryCount = 0\<rparr>]"
      by (simp_all add: queued_client_def)
    ultimately show ?thesis by simp
  qed
  have tm: "map_of (timers queued_client) 2 = Some \<lparr>delay = 5000, repeating = True, action = IdentifyCheck\<rparr>"
      "map_of (timers queued_client) 3 = Some \<lparr>delay = 5000, repeating = False, action = GiveUp a_test 0\<rparr>"
    by (simp_all add: queued_client_def)
  have ms: "decimal 5000 = ''5000''" by (simp add: decimal.simps digit_char_values)
  have gu: "map_of (promises (state_of (fire 3 (state_of (fire 2 queued_client))))) 0 =
        Some (Rejected ''No extension client available after 5000ms'')"
    by (simp add: tick1 give_up ms)
  show ?thesis
    unfolding fetch_silent_client by (intro conjI allI ticks tm gu)
qed

section \<open>Properties of the broker\<close>

subsection \<open>Executor selection\<close>

lemma loop_pick: "bestClient_loop es s best h = pick (open_executors es s) best h"
  by (induction es s best h rule: bestClient_loop.induct) (simp_all add: Let_def split: option.splits)

lemma healthScore_le: "healthScore x \<le> 2"
  by (simp add: healthScore_def)

lemma open_executors_scores: "list_all (\<lambda>p. snd p \<le> 2) (open_executors es s)"
  by (induction es s rule: open_executors.induct) (simp_all add: healthScore_le split: option.splits)

lemma pick_char:
  assumes "list_all (\<lambda>p. snd p \<le> 2) xs"
  shows "(pick xs best h = best \<and> list_all (\<lambda>p. snd p \<le> h) xs)
       \<or> (\<exists>c. pick xs best h = Some c \<and>
            (\<exists>pre sc post. xs = pre @ (c, sc) # post \<and> h < sc
               \<and> list_all (\<lambda>p. snd p < sc) pre \<and> list_all (\<lambda>p. snd p \<le> sc) post))"
  using assms
proof (induction xs arbitrary: best h)
  case Nil
  then show ?case by simp
next
  case (Cons x xs)
  obtain c sc where x: "x = (c, sc)" by (cases x)
  have le: "sc \<le> 2" and rest: "list_all (\<lambda>p. snd p \<le> 2) xs"
    using Cons.prems x by simp_all
  show ?case
  proof (cases "sc > h")
    case False
    from Cons.IH[OF rest, of best h] show ?thesis
    proof
      assume "pick xs best h = best \<and> list_all (\<lambda>p. snd p \<le> h) xs"
      then show ?thesis using False x by simp
    next
      assume "\<exists>c'. pick xs best h = Some c' \<and>
            (\<exists>pre sc' post. xs = pre @ (c', sc') # post \<and> h < sc'
               \<and> list_all (\<lambda>p. snd p < sc') pre \<and> list_all (\<lambda>p. snd p \<le> sc') post)"
      then obtain c' pre sc' post where p: "pick xs best h = Some c'" "xs = pre @ (c', sc') # post"
          "h < sc'" "list_all (\<lambda>p. snd p < sc') pre" "list_all (\<lambda>p. snd p \<le> sc') post"
        by blast
      have "x # xs = (x # pre) @ (c', sc') # post" using p(2) by simp
      moreover have "list_all (\<lambda>p. snd p < sc') (x # pre)" using p(3,4) False x by simp
      ultimately have "\<exists>pre sc post. x # xs = pre @ (c', sc) # post \<and> h < sc
               \<and> list_all (\<lambda>p. snd p < sc) pre \<and> list_all (\<lambda>p. snd p \<le> sc) post"
        using p(3,5) by blast
      moreover have "pick (x # xs) best h = Some c'" using False x p(1) by simp
      ultimately show ?thesis by blast
    qed
  next
    case True
    show ?thesis
    proof (cases "sc = 2")
      case two: True
      have "list_all (\<lambda>p. snd p \<le> sc) xs" using rest two by simp
      then have "\<exists>pre sc' post. x # xs = pre @ (c, sc') # post \<and> h < sc'
               \<and> list_all (\<lambda>p. snd p < sc') pre \<and> list_all (\<lambda>p. snd p \<le> sc') post"
        using True x by (intro exI[of _ "[]"] exI[of _ sc] exI[of _ xs]) simp
      moreover have "pick (x # xs) best h = Some c" using True two x by simp
      ultimately show ?thesis by blast
    next
      case False
      have pk: "pick (x # xs) best h = pick xs (Some c) sc" using True False x by simp
      from Cons.IH[OF rest, of "Some c" sc] show ?thesis
      proof
        assume a: "pick xs (Some c) sc = Some c \<and> list_all (\<lambda>p. snd p \<le> sc) xs"
        then have "\<exists>pre sc' post. x # xs = pre @ (c, sc') # post \<and> h < sc'
               \<and> list_all (\<lambda>p. snd p < sc') pre \<and> list_all (\<lambda>p. snd p \<le> sc') post"
          using True x by (intro exI[of _ "[]"] exI[of _ sc] exI[of _ xs]) simp
        then show ?thesis using pk a by auto
      next
        assume "\<exists>c'. pick xs (Some c) sc = Some c' \<and>
            (\<exists>pre sc' post. xs = pre @ (c', sc') # post \<and> sc < sc'
               \<and> list_all (\<lambda>p. snd p < sc') pre \<and> list_all (\<lambda>p. snd p \<le> sc') post)"
        then obtain c' pre sc' post where p: "pick xs (Some c) sc = Some c'" "xs = pre @ (c', sc') # post"
          "sc < sc'" "list_all (\<lambda>p. snd p < sc') pre" "list_all (\<lambda>p. snd p \<le> sc') post"
          by blast
        have "x # xs = (x # pre) @ (c', sc') # post" using p(2) by simp
        moreover have "list_all (\<lambda>p. snd p < sc') (x # pre)" using p(3,4) x by simp
        moreover have "h < sc'" using True p(3) by simp
        ultimately have "\<exists>pre sc post. x # xs = pre @ (c', sc) # post \<and> h < sc
               \<and> list_all (\<lambda>p. snd p < sc) pre \<and> list_all (\<lambda>p. snd p \<le> sc) post"
          using p(5) by blast
        then show ?thesis using pk p(1) by auto
      qed
    qed
  qed
qed

lemma healthScore_ge: "0 \<le> healthScore x"
  by (simp add: healthScore_def)

lemma open_executors_nonneg: "list_all (\<lambda>p. 0 \<le> snd p) (open_executors es s)"
  by (induction es s rule: open_executors.induct) (simp_all add: healthScore_ge split: option.splits)

lemma open_executors_append:
  "open_executors (es @ fs) s = open_executors es s @ open_executors fs s"
  by (induction es s rule: open_executors.induct) (simp_all split: option.splits)

lemma pick_first_healthy:
  "list_all (\<lambda>p. snd p < 2) xs \<Longrightarrow> h < 2 \<Longrightarrow> pick (xs @ (c, 2) # ys) best h = Some c"
  by (induction xs arbitrary: best h) auto

lemma bestClient_None_iff: "bestClient s = None \<longleftrightarrow> open_executors (clients_extension s) s = []"
proof
  assume none: "bestClient s = None"
  let ?xs = "open_executors (clients_extension s) s"
  from pick_char[OF open_executors_scores, of "clients_extension s" s None "- 1"] none
  have "list_all (\<lambda>p. snd p \<le> - 1) ?xs"
    by (auto simp: bestClient_def loop_pick)
  moreover have "list_all (\<lambda>p. 0 \<le> snd p) ?xs" by (rule open_executors_nonneg)
  ultimately show "?xs = []" by (cases ?xs) auto
next
  assume "open_executors (clients_extension s) s = []"
  then show "bestClient s = None" by (simp add: bestClient_def loop_pick)
qed

lemma bestClient_Some: "bestClient s = Some c \<Longrightarrow> first_best c (open_executors (clients_extension s) s)"
  using pick_char[OF open_executors_scores, of "clients_extension s" s None "- 1"]
  by (auto simp: bestClient_def loop_pick first_best_def)

text \<open>
  Claim C5, as the code has it. Among the executors whose socket is open the selection
  returns the first one of the highest score, where \<^verbatim>\<open>healthy\<close> scores 2,
  \<^verbatim>\<open>degraded\<close> 1 and \<^verbatim>\<open>critical\<close> 0: a critical executor is a candidate like the
  others and is chosen when no open executor scores more. It returns nothing exactly
  when no executor is open, and \<^verbatim>\<open>sendToExtension\<close> then reports \<^verbatim>\<open>false\<close> and changes
  nothing. The first open healthy executor met is returned whatever follows it in the
  table.
\<close>

theorem bestClient_first_best:
  "(bestClient s = None \<longleftrightarrow> open_executors (clients_extension s) s = [])
   \<and> (bestClient s = Some c \<longrightarrow> first_best c (open_executors (clients_extension s) s))
   \<and> healthScore healthy = 2 \<and> healthScore degraded = 1 \<and> healthScore critical = 0
   \<and> (map_of (objects s) a = Some cd \<and> ready (client cd) s = OPEN \<and> healthStatus cd = healthy
        \<and> list_all (\<lambda>p. snd p < 2) (open_executors pre s) \<longrightarrow>
        bestClient_loop (pre @ (cid, a) # post) s None (- 1) = Some (client cd))
   \<and> (open_executors (clients_extension s) s = [] \<longrightarrow> sendToExtension message s = (False, s))"
proof -
  have short: "bestClient_loop (pre @ (cid, a) # post) s None (- 1) = Some (client cd)"
    if "map_of (objects s) a = Some cd" "ready (client cd) s = OPEN" "healthStatus cd = healthy"
      "list_all (\<lambda>p. snd p < 2) (open_executors pre s)"
    using that pick_first_healthy[of "open_executors pre s" "- 1" "client cd" "open_executors post s" None]
    by (simp add: loop_pick open_executors_append healthScore_def)
  have fail: "sendToExtension message s = (False, s)" if "open_executors (clients_extension s) s = []"
    using that bestClient_None_iff[of s] by (simp add: sendToExtension_def)
  show ?thesis
    using bestClient_None_iff[of s] bestClient_Some[of s c] short fail
    by (simp add: healthScore_def)
qed

lemma mixed_open: "open_executors (clients_extension mixed_executors) mixed_executors = [(2, 0), (3, 1), (4, 1)]"
  by (simp add: mixed_executors_def executor_record_def socket_in_def ready_def healthScore_def)

theorem bestClient_first_best_witness:
  "bestClient mixed_executors = Some 3
   \<and> first_best 3 [(2, 0), (3, 1), (4, 1)]
   \<and> bestClient_loop [(2, 12), (1, 11), (3, 13)]
        (mixed_executors\<lparr>sockets := [(1, socket_in OPEN Extension), (2, socket_in OPEN Extension)]\<rparr>)
        None (- 1) = Some 1"
proof -
  let ?s = "mixed_executors\<lparr>sockets := [(1, socket_in OPEN Extension), (2, socket_in OPEN Extension)]\<rparr>"
  have best: "bestClient mixed_executors = Some 3"
    by (simp add: bestClient_def mixed_executors_def executor_record_def socket_in_def ready_def
          healthScore_def)
  have pre: "map_of (objects ?s) 11 = Some (executor_record 1 healthy 0)"
      "ready (client (executor_record 1 healthy 0)) ?s = OPEN"
      "healthStatus (executor_record 1 healthy 0) = healthy"
      "list_all (\<lambda>p. snd p < 2) (open_executors [(2, 12)] ?s)"
    by (simp_all add: mixed_executors_def executor_record_def socket_in_def ready_def healthScore_def)
  have cl: "client (executor_record 1 healthy 0) = 1"
    by (simp add: executor_record_def)
  show ?thesis
    using bestClient_first_best[of mixed_executors 3] best mixed_open
      bestClient_first_best[of ?s _ 11 "executor_record 1 healthy 0" "[(2, 12)]" 1 "[(3, 13)]"] pre cl
    by simp
qed

text \<open>
  Claim C5 as stated excludes critical executors from the selection. With the critical
  executor on socket 2 as the only one, the selection returns it and the request is sent
  to it.
\<close>

theorem critical_executor_is_selected:
  "map_option healthStatus (map_of (objects critical_only) 12) = Some critical
   \<and> clients_extension critical_only = [(2, 12)]
   \<and> bestClient critical_only = Some 2
   \<and> fst (sendToExtension get_feed critical_only)
   \<and> outbox 2 (snd (sendToExtension get_feed critical_only)) = [Forwarded get_feed]"
  by (simp add: critical_only_def mixed_executors_def executor_record_def socket_in_def ready_def
        healthScore_def bestClient_def sendToExtension_def send_to_def outbox_def)

subsection \<open>Heartbeat\<close>

text \<open>The definitions a timeline of the broker is evaluated with.\<close>

lemmas broker_defs =
  server_run_def silent_executor_def late_pong_def broker_start_def connection_def
  handleClientIdentification_def heartbeatTick_def sendHeartbeats_def checkClientHealth_def
  ping_client_def check_client_def pongTimeout_def handlePongResponse_def server_fire_def
  send_to_def ready_def modify_def clients_def set_clients_def server_setTimeout_def
  server_clearTimeout_def socket_in_def new_clientData_def no_stats_def notifyXfetchClients_def
  missed_pong_def pong_received_def maxMissed_def heartbeat_timeout_def heartbeat_interval_def
  executor_health_def Let_def

text \<open>The handlers drive the record as the state machine says.\<close>

lemma pongTimeout_step:
  "map_of (objects s) a = Some cd \<Longrightarrow> ready (client cd) s = OPEN \<Longrightarrow>
   map_of (objects (pongTimeout a s)) a = Some (heartbeat_step PongTimeoutFired cd)"
  by (simp add: pongTimeout_def modify_def update_conv')

lemma handlePongResponse_step:
  "map_of (sockets s) c = Some w \<Longrightarrow> map_of (clients (sock_clientType w) s) c = Some a \<Longrightarrow>
   map_of (objects s) a = Some cd \<Longrightarrow>
   map_of (objects (handlePongResponse c now s)) a = Some (heartbeat_step (PongReceived now) cd)"
  by (simp add: handlePongResponse_def modify_def server_clearTimeout_def update_conv' Let_def
        split: option.splits)

lemma ping_client_step:
  "map_of (objects s) a = Some cd \<Longrightarrow> map_of (sockets s) (client cd) = Some w \<Longrightarrow>
   readyState w = OPEN \<Longrightarrow> \<not> sendThrows w \<Longrightarrow>
   map_of (objects (ping_client t a now s)) a =
     Some (heartbeat_step (PingSent now (server_nextTimer s)) cd)"
  by (simp add: ping_client_def ready_def send_to_def modify_def server_setTimeout_def
        update_conv' Let_def)

lemma heartbeat_invariant:
  "healthStatus (fold heartbeat_step es (new_clientData c ip t0)) = critical \<longrightarrow>
     missedHeartbeats (fold heartbeat_step es (new_clientData c ip t0)) = 0
     \<or> maxMissed \<le> missedHeartbeats (fold heartbeat_step es (new_clientData c ip t0))"
proof (induction es rule: rev_induct)
  case Nil
  then show ?case by (simp add: new_clientData_def)
next
  case (snoc e es)
  then show ?case
    by (cases e) (auto simp: pong_received_def missed_pong_def)
qed

text \<open>
  Claim C4, as the code has it. Take the record of a connection after any sequence of
  pings sent, pongs received and pong timeouts since its identification. If it is
  critical, its missed count is 0 or at least \<^verbatim>\<open>maxMissed\<close>. A pong sets the missed
  count to 0 and leaves a critical record critical; when a pong changes the health at
  all, it changes it to healthy and the record was not critical. A pong timeout keeps a
  critical record critical while its missed count is still at least \<^verbatim>\<open>maxMissed\<close>. But
  the timeout computes the health from the count alone: on a critical record whose
  count a pong has reset, a timeout that finds a ping unanswered writes degraded.
\<close>

theorem heartbeat_critical:
  fixes es c ip t0
  defines "cd \<equiv> fold heartbeat_step es (new_clientData c ip t0)"
  shows "(healthStatus cd = critical \<longrightarrow> missedHeartbeats cd = 0 \<or> maxMissed \<le> missedHeartbeats cd)
       \<and> missedHeartbeats (heartbeat_step (PongReceived now) cd) = 0
       \<and> (healthStatus cd = critical \<longrightarrow>
            healthStatus (heartbeat_step (PongReceived now) cd) = critical)
       \<and> (healthStatus (heartbeat_step (PongReceived now) cd) \<noteq> healthStatus cd \<longrightarrow>
            healthStatus (heartbeat_step (PongReceived now) cd) = healthy \<and> healthStatus cd \<noteq> critical)
       \<and> (healthStatus cd = critical \<and> maxMissed \<le> missedHeartbeats cd \<longrightarrow>
            healthStatus (heartbeat_step PongTimeoutFired cd) = critical)
       \<and> (healthStatus cd = critical \<and> missedHeartbeats cd = 0 \<and> awaitingPong cd \<longrightarrow>
            healthStatus (heartbeat_step PongTimeoutFired cd) = degraded)"
proof -
  have inv: "healthStatus cd = critical \<longrightarrow> missedHeartbeats cd = 0 \<or> maxMissed \<le> missedHeartbeats cd"
    unfolding cd_def by (rule heartbeat_invariant)
  show ?thesis
    using inv by (auto simp: pong_received_def missed_pong_def maxMissed_def)
qed

theorem heartbeat_critical_witness:
  "healthStatus (fold heartbeat_step three_misses (new_clientData 1 ''127.0.0.1'' 0)) = critical
   \<and> missedHeartbeats (fold heartbeat_step three_misses (new_clientData 1 ''127.0.0.1'' 0)) = 3
   \<and> healthStatus (heartbeat_step (PongReceived 14500)
        (fold heartbeat_step three_misses (new_clientData 1 ''127.0.0.1'' 0))) = critical
   \<and> healthStatus (heartbeat_step PongTimeoutFired
        (fold heartbeat_step (three_misses @ [PingSent 12000 3])
           (new_clientData 1 ''127.0.0.1'' 0))) = critical
   \<and> healthStatus (heartbeat_step PongTimeoutFired
        (fold heartbeat_step (three_misses @ [PongReceived 14500, PingSent 15000 4])
           (new_clientData 1 ''127.0.0.1'' 0))) = degraded"
proof -
  let ?cd = "fold heartbeat_step three_misses (new_clientData 1 ''127.0.0.1'' 0)"
  let ?cd1 = "fold heartbeat_step (three_misses @ [PingSent 12000 3]) (new_clientData 1 ''127.0.0.1'' 0)"
  let ?cd2 = "fold heartbeat_step (three_misses @ [PongReceived 14500, PingSent 15000 4])
                (new_clientData 1 ''127.0.0.1'' 0)"
  have a: "healthStatus ?cd = critical" "missedHeartbeats ?cd = 3"
    by (simp_all add: three_misses_def new_clientData_def missed_pong_def maxMissed_def)
  have b: "healthStatus ?cd1 = critical" "maxMissed \<le> missedHeartbeats ?cd1"
    by (simp_all add: three_misses_def new_clientData_def missed_pong_def maxMissed_def)
  have c: "healthStatus ?cd2 = critical" "missedHeartbeats ?cd2 = 0" "awaitingPong ?cd2"
    by (simp_all add: three_misses_def new_clientData_def missed_pong_def pong_received_def maxMissed_def)
  note t1 = heartbeat_critical[of three_misses 1 "''127.0.0.1''" 0 14500]
  note t2 = heartbeat_critical[of "three_misses @ [PingSent 12000 3]" 1 "''127.0.0.1''" 0 0]
  note t3 = heartbeat_critical[of "three_misses @ [PongReceived 14500, PingSent 15000 4]" 1 "''127.0.0.1''" 0 0]
  have p: "healthStatus (heartbeat_step (PongReceived 14500) ?cd) = critical"
    using t1 a(1) by blast
  have q: "healthStatus (heartbeat_step PongTimeoutFired ?cd1) = critical"
    using t2 b by blast
  have r: "healthStatus (heartbeat_step PongTimeoutFired ?cd2) = degraded"
    using t3 c by blast
  show ?thesis
    by (intro conjI a p q r)
qed

text \<open>
  Claim C4 as stated lets no later pong or pong timeout move a critical connection back.
  On the broker's timeline: an executor misses three pings and is critical at 14 s; its
  late pong at 14.5 s resets the count, so the health check at 15 s keeps it; it misses
  the ping of 15 s, and the timeout at 20 s makes it degraded.
\<close>

theorem critical_executor_becomes_degraded:
  "executor_health 1 (server_run silent_executor broker_start) = Some critical
   \<and> executor_health 1 (server_run (silent_executor @ late_pong) broker_start) = Some degraded"
  by (simp add: broker_defs)

subsection \<open>Executor responses\<close>

text \<open>What a connection is sent, and whether it is open, depends on the sockets alone.\<close>

lemma socket_view_updates [simp]:
  "outbox c (s\<lparr>objects := ob\<rparr>) = outbox c s"
  "outbox c (s\<lparr>nextObject := n\<rparr>) = outbox c s"
  "outbox c (s\<lparr>clients_extension := ce\<rparr>) = outbox c s"
  "outbox c (s\<lparr>clients_xfetch := cx\<rparr>) = outbox c s"
  "outbox c (s\<lparr>pendingRequests := pr\<rparr>) = outbox c s"
  "outbox c (s\<lparr>pendingRequestsQueue := pq\<rparr>) = outbox c s"
  "outbox c (s\<lparr>stats := st\<rparr>) = outbox c s"
  "outbox c (s\<lparr>server_timers := tm\<rparr>) = outbox c s"
  "outbox c (s\<lparr>server_nextTimer := nt\<rparr>) = outbox c s"
  "ready c (s\<lparr>objects := ob\<rparr>) = ready c s"
  "ready c (s\<lparr>nextObject := n\<rparr>) = ready c s"
  "ready c (s\<lparr>clients_extension := ce\<rparr>) = ready c s"
  "ready c (s\<lparr>clients_xfetch := cx\<rparr>) = ready c s"
  "ready c (s\<lparr>pendingRequests := pr\<rparr>) = ready c s"
  "ready c (s\<lparr>pendingRequestsQueue := pq\<rparr>) = ready c s"
  "ready c (s\<lparr>stats := st\<rparr>) = ready c s"
  "ready c (s\<lparr>server_timers := tm\<rparr>) = ready c s"
  "ready c (s\<lparr>server_nextTimer := nt\<rparr>) = ready c s"
  "accepts c (s\<lparr>objects := ob\<rparr>) = accepts c s"
  "accepts c (s\<lparr>nextObject := n\<rparr>) = accepts c s"
  "accepts c (s\<lparr>clients_extension := ce\<rparr>) = accepts c s"
  "accepts c (s\<lparr>clients_xfetch := cx\<rparr>) = accepts c s"
  "accepts c (s\<lparr>pendingRequests := pr\<rparr>) = accepts c s"
  "accepts c (s\<lparr>pendingRequestsQueue := pq\<rparr>) = accepts c s"
  "accepts c (s\<lparr>stats := st\<rparr>) = accepts c s"
  "accepts c (s\<lparr>server_timers := tm\<rparr>) = accepts c s"
  "accepts c (s\<lparr>server_nextTimer := nt\<rparr>) = accepts c s"
  by (simp_all add: outbox_def ready_def accepts_def)

lemma modify_fields [simp]:
  "sockets (modify a f s) = sockets s"
  "clients_extension (modify a f s) = clients_extension s"
  "clients_xfetch (modify a f s) = clients_xfetch s"
  "pendingRequests (modify a f s) = pendingRequests s"
  "pendingRequestsQueue (modify a f s) = pendingRequestsQueue s"
  "stats (modify a f s) = stats s"
  "server_timers (modify a f s) = server_timers s"
  "server_nextTimer (modify a f s) = server_nextTimer s"
  "nextObject (modify a f s) = nextObject s"
  by (simp_all add: modify_def split: option.splits)

lemma modify_derived [simp]:
  "ready c (modify a f s) = ready c s"
  "outbox c (modify a f s) = outbox c s"
  "accepts c (modify a f s) = accepts c s"
  by (simp_all add: ready_def outbox_def accepts_def)

lemma touch_fields [simp]:
  "sockets (touch e now s) = sockets s"
  "clients_extension (touch e now s) = clients_extension s"
  "clients_xfetch (touch e now s) = clients_xfetch s"
  "pendingRequests (touch e now s) = pendingRequests s"
  "pendingRequestsQueue (touch e now s) = pendingRequestsQueue s"
  "stats (touch e now s) = stats s"
  "server_timers (touch e now s) = server_timers s"
  "server_nextTimer (touch e now s) = server_nextTimer s"
  "ready c (touch e now s) = ready c s"
  "outbox c (touch e now s) = outbox c s"
  "accepts c (touch e now s) = accepts c s"
  by (simp_all add: touch_def split: option.splits)

lemma sendToXfetch_fields [simp]:
  "objects (snd (sendToXfetch c f s)) = objects s"
  "clients_extension (snd (sendToXfetch c f s)) = clients_extension s"
  "clients_xfetch (snd (sendToXfetch c f s)) = clients_xfetch s"
  "pendingRequests (snd (sendToXfetch c f s)) = pendingRequests s"
  "pendingRequestsQueue (snd (sendToXfetch c f s)) = pendingRequestsQueue s"
  "stats (snd (sendToXfetch c f s)) = stats s"
  "server_timers (snd (sendToXfetch c f s)) = server_timers s"
  "server_nextTimer (snd (sendToXfetch c f s)) = server_nextTimer s"
  by (simp_all add: sendToXfetch_def send_to_def split: option.splits)

lemma sendToXfetch_outbox:
  "outbox c' (snd (sendToXfetch c f s)) = outbox c' s @ (if c' = c \<and> accepts c s then [f] else [])"
  by (auto simp: sendToXfetch_def send_to_def outbox_def accepts_def ready_def update_conv'
        split: option.splits)

lemma handleExtensionResponse_absent:
  "map_of (pendingRequests s) (r_id m) = None \<Longrightarrow> handleExtensionResponse e m now s = touch e now s"
  by (simp add: handleExtensionResponse_def touch_def Let_def split: option.splits)

lemma handleExtensionResponse_present:
  assumes "map_of (pendingRequests s) (r_id m) = Some p"
  shows "pendingRequests (handleExtensionResponse e m now s) = AList.delete (r_id m) (pendingRequests s)"
    and "outbox c (handleExtensionResponse e m now s) =
           outbox c s @ (if c = pr_client p \<and> accepts (pr_client p) s then [Answer m] else [])"
  using assms
  by (auto simp add: handleExtensionResponse_def Let_def sendToXfetch_outbox
        touch_def[symmetric] accepts_def ready_def split: option.splits)

lemma answers_step:
  "answers r c (handleExtensionResponse e m now s) =
     answers r c s @
     (case map_of (pendingRequests s) (r_id m) of
        None \<Rightarrow> []
      | Some p \<Rightarrow> if r_id m = r \<and> c = pr_client p \<and> accepts (pr_client p) s then [Answer m] else [])"
proof (cases "map_of (pendingRequests s) (r_id m)")
  case None
  then show ?thesis by (simp add: handleExtensionResponse_absent answers_def)
next
  case (Some p)
  then show ?thesis by (simp add: handleExtensionResponse_present(2)[OF Some] answers_def)
qed

lemma pending_after_response:
  "map_of (pendingRequests (handleExtensionResponse e m now s)) r =
     (if r = r_id m then None else map_of (pendingRequests s) r)"
proof (cases "map_of (pendingRequests s) (r_id m)")
  case None
  then show ?thesis by (auto simp: handleExtensionResponse_absent)
next
  case (Some p)
  then show ?thesis by (simp add: handleExtensionResponse_present(1)[OF Some] delete_conv')
qed

lemma answers_absent:
  "map_of (pendingRequests s) r = None \<Longrightarrow> answers r c (responses rs s) = answers r c s"
proof (induction rs arbitrary: s)
  case Nil
  then show ?case by simp
next
  case (Cons x rs)
  obtain e m now where x: "x = (e, m, now)" by (cases x)
  let ?s' = "handleExtensionResponse e m now s"
  have "map_of (pendingRequests ?s') r = None"
    using Cons.prems by (simp add: pending_after_response)
  then have "answers r c (responses rs ?s') = answers r c ?s'"
    by (rule Cons.IH)
  moreover have "answers r c ?s' = answers r c s"
    using Cons.prems by (auto simp: answers_step split: option.splits)
  ultimately show ?case using x by simp
qed

lemma answers_at_most_one:
  "length (answers r c (responses rs s)) \<le> Suc (length (answers r c s))"
proof (induction rs arbitrary: s)
  case Nil
  then show ?case by simp
next
  case (Cons x rs)
  obtain e m now where x: "x = (e, m, now)" by (cases x)
  let ?s' = "handleExtensionResponse e m now s"
  show ?case
  proof (cases "r_id m = r")
    case True
    then have "map_of (pendingRequests ?s') r = None"
      by (simp add: pending_after_response)
    then have "answers r c (responses rs ?s') = answers r c ?s'"
      by (rule answers_absent)
    moreover have "length (answers r c ?s') \<le> Suc (length (answers r c s))"
      by (simp add: answers_step split: option.splits)
    ultimately show ?thesis using x by simp
  next
    case False
    then have "answers r c ?s' = answers r c s"
      by (simp add: answers_step split: option.splits)
    then show ?thesis using Cons.IH[of ?s'] x by simp
  qed
qed

lemma touch_objects:
  "map_of (objects (touch e now s)) a =
     (if map_of (clients_extension s) e = Some a
      then map_option (\<lambda>cd. cd\<lparr>lastActivity := now\<rparr>) (map_of (objects s) a)
      else map_of (objects s) a)"
  by (auto simp: touch_def modify_def update_conv' split: option.splits)

text \<open>The definitions a routing timeline is evaluated with.\<close>

lemmas routing_defs =
  in_flight_def waiting_def get_feed_def answer_r1_def answer_r9_def handleXfetchRequest_def
  validateExtensionClients_def fail_request_def count_failed_def sendToExtension_def
  bestClient_def healthScore_def notify_client_def handleExtensionResponse_def sendToXfetch_def
  count_executor_def count_requester_def outbox_def accepts_def touch_def

lemma in_flight_facts:
  "map_of (pendingRequests in_flight) ''r1'' =
     Some \<lparr>pr_client = 2, pr_timestamp = 100, pr_url = ''https://a.test'', pr_options = JObj [],
           pr_clientId = 2\<rparr>"
  "map_of (pendingRequests in_flight) ''r9'' = None"
  "accepts 2 in_flight"
  "clients_extension in_flight = [(1, 0)]"
  "map_option lastActivity (map_of (objects in_flight) 0) = Some 0"
  by (simp_all add: broker_defs routing_defs)

subsection \<open>Requests while no executor is registered\<close>

lemma server_fire_retry:
  assumes "map_of (server_timers s) t = Some \<lparr>st_delay = d, st_action = RetryValidate m c count\<rparr>"
  shows "server_fire t now s =
     validateExtensionClients m c (count + 1) now
       (s\<lparr>server_timers := AList.delete t (server_timers s),
          pendingRequestsQueue := AList.delete (m_id m) (pendingRequestsQueue s)\<rparr>)"
  using assms by (simp add: server_fire_def server_clearTimeout_def)

lemma validate_queues:
  assumes "clients_extension s = []" "count < 3"
    and "map_of (pendingRequestsQueue s) (m_id m) = None"
  shows "validateExtensionClients m c count now s =
     Normal (s\<lparr>server_timers := AList.update (server_nextTimer s)
                  \<lparr>st_delay = 2000, st_action = RetryValidate m c count\<rparr> (server_timers s),
               server_nextTimer := Suc (server_nextTimer s),
               pendingRequestsQueue := AList.update (m_id m)
                  \<lparr>qi_client = c, qi_timestamp = now, qi_url = m_url m, qi_clientId = c,
                   qi_originalMessage = m, qi_timeoutId = server_nextTimer s\<rparr>
                  (pendingRequestsQueue s)\<rparr>)"
  using assms by (simp add: validateExtensionClients_def server_setTimeout_def Let_def)

lemma validate_queues_again:
  assumes "clients_extension s = []" "count < 3"
    and "map_of (pendingRequestsQueue s) (m_id m) = Some q"
  shows "validateExtensionClients m c count now s =
     Normal (s\<lparr>server_timers := AList.update (server_nextTimer s)
                  \<lparr>st_delay = 2000, st_action = RetryValidate m c count\<rparr>
                  (AList.delete (qi_timeoutId q) (server_timers s)),
               server_nextTimer := Suc (server_nextTimer s),
               pendingRequestsQueue := AList.update (m_id m)
                  \<lparr>qi_client = c, qi_timestamp = now, qi_url = m_url m, qi_clientId = c,
                   qi_originalMessage = m, qi_timeoutId = server_nextTimer s\<rparr>
                  (pendingRequestsQueue s)\<rparr>)"
  using assms
  by (simp add: validateExtensionClients_def server_setTimeout_def server_clearTimeout_def Let_def)

lemma validate_queued_at:
  assumes "clients_extension s = []" "count < 3"
  shows "\<exists>s'. validateExtensionClients m c count now s = Normal s'
      \<and> queued_at m c count (server_nextTimer s) s'
      \<and> sockets s' = sockets s \<and> pendingRequests s' = pendingRequests s
      \<and> objects s' = objects s \<and> stats s' = stats s"
proof (cases "map_of (pendingRequestsQueue s) (m_id m)")
  case None
  show ?thesis
    unfolding validate_queues[OF assms None] using assms(1)
    by (simp add: queued_at_def update_conv')
next
  case (Some q)
  show ?thesis
    unfolding validate_queues_again[OF assms Some] using assms(1)
    by (simp add: queued_at_def update_conv')
qed

lemma fail_request_accepts:
  assumes "accepts c s"
  shows "\<exists>s'. fail_request m c reason s = Normal s'
      \<and> outbox c s' = outbox c s @ [Failure (m_id m) reason]
      \<and> map_of (pendingRequests s') (m_id m) = None
      \<and> map_of (pendingRequestsQueue s') (m_id m) = None
      \<and> server_timers s' = server_timers s \<and> server_nextTimer s' = server_nextTimer s
      \<and> clients_extension s' = clients_extension s"
  using assms
  by (auto simp: fail_request_def accepts_def ready_def send_to_def outbox_def Let_def update_conv'
        delete_conv' split: option.splits)

lemma submit_queued:
  assumes "clients_extension s = []"
  shows "\<exists>s0. handleXfetchRequest c m now s = Normal s0
      \<and> queued_at m c 0 (server_nextTimer s) s0
      \<and> sockets s0 = sockets s
      \<and> map_of (pendingRequests s0) (m_id m) =
           Some \<lparr>pr_client = c, pr_timestamp = now, pr_url = m_url m, pr_options = m_options m,
                 pr_clientId = c\<rparr>"
proof -
  let ?s1 = "(case map_of (clients_xfetch s) c of
                  None \<Rightarrow> s
                | Some a \<Rightarrow> modify a (\<lambda>cd. cd\<lparr>lastActivity := now\<rparr>) s)"
  let ?s2 = "?s1\<lparr>pendingRequests :=
                    AList.update (m_id m)
                      \<lparr>pr_client = c, pr_timestamp = now, pr_url = m_url m,
                       pr_options = m_options m, pr_clientId = c\<rparr>
                      (pendingRequests ?s1)\<rparr>"
  have f: "clients_extension ?s2 = []" "server_nextTimer ?s2 = server_nextTimer s"
      "sockets ?s2 = sockets s"
    using assms by (simp_all add: modify_def split: option.splits)
  have h: "handleXfetchRequest c m now s = validateExtensionClients m c 0 now ?s2"
    by (simp add: handleXfetchRequest_def Let_def)
  obtain s0 where s0: "validateExtensionClients m c 0 now ?s2 = Normal s0"
      "queued_at m c 0 (server_nextTimer ?s2) s0" "sockets s0 = sockets ?s2"
      "pendingRequests s0 = pendingRequests ?s2"
    using validate_queued_at[OF f(1), of 0 m c now] by auto
  have "map_of (pendingRequests ?s2) (m_id m) =
           Some \<lparr>pr_client = c, pr_timestamp = now, pr_url = m_url m, pr_options = m_options m,
                 pr_clientId = c\<rparr>"
    by (simp add: update_conv')
  then show ?thesis
    using h s0 f by simp
qed

lemma retry_requeues:
  assumes q: "queued_at m c count t s" and lt: "count + 1 < 3"
  shows "\<exists>s'. server_fire t now s = Normal s'
      \<and> queued_at m c (count + 1) (t + 1) s'
      \<and> sockets s' = sockets s \<and> pendingRequests s' = pendingRequests s"
proof -
  let ?s1 = "s\<lparr>server_timers := AList.delete t (server_timers s),
          pendingRequestsQueue := AList.delete (m_id m) (pendingRequestsQueue s)\<rparr>"
  have tm: "map_of (server_timers s) t = Some \<lparr>st_delay = 2000, st_action = RetryValidate m c count\<rparr>"
    and nt: "server_nextTimer s = Suc t" and ce: "clients_extension s = []"
    using q by (simp_all add: queued_at_def)
  have ce1: "clients_extension ?s1 = []" using ce by simp
  obtain s' where s': "validateExtensionClients m c (count + 1) now ?s1 = Normal s'"
      "queued_at m c (count + 1) (server_nextTimer ?s1) s'" "sockets s' = sockets ?s1"
      "pendingRequests s' = pendingRequests ?s1"
    using validate_queued_at[OF ce1 lt, of m c now] by auto
  show ?thesis
    using s' nt by (simp add: server_fire_retry[OF tm])
qed

lemma retry_gives_up:
  assumes q: "queued_at m c count t s" and ge: "\<not> count + 1 < 3" and acc: "accepts c s"
  shows "\<exists>s'. server_fire t now s = Normal s'
      \<and> outbox c s' = outbox c s @ [Failure (m_id m) ''No extension clients available after maximum retries'']
      \<and> map_of (pendingRequests s') (m_id m) = None
      \<and> map_of (pendingRequestsQueue s') (m_id m) = None
      \<and> server_nextTimer s' = Suc t \<and> map_of (server_timers s') t = None"
proof -
  let ?s1 = "s\<lparr>server_timers := AList.delete t (server_timers s),
          pendingRequestsQueue := AList.delete (m_id m) (pendingRequestsQueue s)\<rparr>"
  have tm: "map_of (server_timers s) t = Some \<lparr>st_delay = 2000, st_action = RetryValidate m c count\<rparr>"
    and nt: "server_nextTimer s = Suc t" and ce: "clients_extension s = []"
    using q by (simp_all add: queued_at_def)
  have acc1: "accepts c ?s1" using acc by (simp add: accepts_def)
  have v: "validateExtensionClients m c (count + 1) now ?s1 =
      fail_request m c ''No extension clients available after maximum retries'' ?s1"
    using ce ge by (simp add: validateExtensionClients_def)
  obtain s' where s': "fail_request m c ''No extension clients available after maximum retries'' ?s1 = Normal s'"
      "outbox c s' = outbox c ?s1 @ [Failure (m_id m) ''No extension clients available after maximum retries'']"
      "map_of (pendingRequests s') (m_id m) = None"
      "map_of (pendingRequestsQueue s') (m_id m) = None"
      "server_timers s' = server_timers ?s1" "server_nextTimer s' = server_nextTimer ?s1"
    using fail_request_accepts[OF acc1] by blast
  have fire_eq: "server_fire t now s =
      fail_request m c ''No extension clients available after maximum retries'' ?s1"
    unfolding server_fire_retry[OF tm] by (rule v)
  have ob: "outbox c ?s1 = outbox c s" by (simp add: outbox_def)
  have gone: "map_of (server_timers s') t = None"
    using s'(5) by (simp add: delete_conv')
  show ?thesis
    unfolding fire_eq using s'(1,2,3,4,6) ob gone nt by simp
qed

lemma send_to_effect:
  assumes "send_to c f s = Some s'"
  shows "objects s' = objects s" "clients_extension s' = clients_extension s"
    "clients_xfetch s' = clients_xfetch s" "pendingRequests s' = pendingRequests s"
    "pendingRequestsQueue s' = pendingRequestsQueue s" "stats s' = stats s"
    "server_timers s' = server_timers s" "server_nextTimer s' = server_nextTimer s"
    "nextObject s' = nextObject s"
    "ready c' s' = ready c' s" "accepts c' s' = accepts c' s"
    "outbox c' s' = outbox c' s @ (if c' = c \<and> ready c s = OPEN then [f] else [])"
  using assms
  by (auto simp: send_to_def ready_def accepts_def outbox_def update_conv'
        split: option.splits if_splits)

lemma notify_client_effect:
  "objects (notify_client av now a s) = objects s"
  "clients_extension (notify_client av now a s) = clients_extension s"
  "clients_xfetch (notify_client av now a s) = clients_xfetch s"
  "pendingRequests (notify_client av now a s) = pendingRequests s"
  "pendingRequestsQueue (notify_client av now a s) = pendingRequestsQueue s"
  "stats (notify_client av now a s) = stats s"
  "server_timers (notify_client av now a s) = server_timers s"
  "server_nextTimer (notify_client av now a s) = server_nextTimer s"
  "ready c (notify_client av now a s) = ready c s"
  "accepts c (notify_client av now a s) = accepts c s"
  "failures r c (notify_client av now a s) = failures r c s"
  by (auto simp: notify_client_def failures_def send_to_effect split: option.splits)

lemma notifyXfetchClients_effect:
  "objects (notifyXfetchClients av now s) = objects s"
  "clients_extension (notifyXfetchClients av now s) = clients_extension s"
  "pendingRequests (notifyXfetchClients av now s) = pendingRequests s"
  "pendingRequestsQueue (notifyXfetchClients av now s) = pendingRequestsQueue s"
  "server_timers (notifyXfetchClients av now s) = server_timers s"
  "server_nextTimer (notifyXfetchClients av now s) = server_nextTimer s"
  "ready c (notifyXfetchClients av now s) = ready c s"
  "accepts c (notifyXfetchClients av now s) = accepts c s"
  "failures r c (notifyXfetchClients av now s) = failures r c s"
proof -
  have gen: "objects (fold (\<lambda>entry. notify_client av now (snd entry)) es s) = objects s
      \<and> clients_extension (fold (\<lambda>entry. notify_client av now (snd entry)) es s) = clients_extension s
      \<and> pendingRequests (fold (\<lambda>entry. notify_client av now (snd entry)) es s) = pendingRequests s
      \<and> pendingRequestsQueue (fold (\<lambda>entry. notify_client av now (snd entry)) es s) = pendingRequestsQueue s
      \<and> server_timers (fold (\<lambda>entry. notify_client av now (snd entry)) es s) = server_timers s
      \<and> server_nextTimer (fold (\<lambda>entry. notify_client av now (snd entry)) es s) = server_nextTimer s
      \<and> ready c (fold (\<lambda>entry. notify_client av now (snd entry)) es s) = ready c s
      \<and> accepts c (fold (\<lambda>entry. notify_client av now (snd entry)) es s) = accepts c s
      \<and> failures r c (fold (\<lambda>entry. notify_client av now (snd entry)) es s) = failures r c s"
    for es :: "(nat \<times> nat) list" and s
    by (induction es arbitrary: s) (simp_all add: notify_client_effect)
  show "objects (notifyXfetchClients av now s) = objects s"
    "clients_extension (notifyXfetchClients av now s) = clients_extension s"
    "pendingRequests (notifyXfetchClients av now s) = pendingRequests s"
    "pendingRequestsQueue (notifyXfetchClients av now s) = pendingRequestsQueue s"
    "server_timers (notifyXfetchClients av now s) = server_timers s"
    "server_nextTimer (notifyXfetchClients av now s) = server_nextTimer s"
    "ready c (notifyXfetchClients av now s) = ready c s"
    "accepts c (notifyXfetchClients av now s) = accepts c s"
    "failures r c (notifyXfetchClients av now s) = failures r c s"
    using gen[of "clients_xfetch s" s] by (simp_all add: notifyXfetchClients_def)
qed

lemma executor_identifies:
  assumes none: "clients_extension s = []" and acc: "accepts e s"
  shows "\<exists>s1. handleClientIdentification e Extension ip now s = Normal s1
      \<and> clients_extension s1 = [(e, nextObject s)]
      \<and> map_of (objects s1) (nextObject s) = Some (new_clientData e ip now)
      \<and> accepts e s1
      \<and> pendingRequests s1 = pendingRequests s
      \<and> pendingRequestsQueue s1 = pendingRequestsQueue s
      \<and> server_timers s1 = server_timers s
      \<and> server_nextTimer s1 = server_nextTimer s
      \<and> (\<forall>r c. failures r c s1 = failures r c s)"
proof -
  obtain w where w: "map_of (sockets s) e = Some w" "readyState w = OPEN" "\<not> sendThrows w"
    using acc by (auto simp: accepts_def split: option.splits)
  let ?s4 = "(if sock_clientType w \<noteq> Unknown
      then (s\<lparr>sockets := AList.update e (w\<lparr>sock_clientType := Extension\<rparr>) (sockets s),
              objects := AList.update (nextObject s) (new_clientData e ip now) (objects s),
              nextObject := Suc (nextObject s),
              clients_extension := [(e, nextObject s)]\<rparr>)
            \<lparr>stats := (stats s)\<lparr>reconnections := reconnections (stats s) + 1\<rparr>\<rparr>
      else s\<lparr>sockets := AList.update e (w\<lparr>sock_clientType := Extension\<rparr>) (sockets s),
              objects := AList.update (nextObject s) (new_clientData e ip now) (objects s),
              nextObject := Suc (nextObject s),
              clients_extension := [(e, nextObject s)]\<rparr>)"
  let ?s5 = "?s4\<lparr>sockets := AList.update e (w\<lparr>sock_clientType := Extension, sent := sent w @ [Identified]\<rparr>)
                (sockets ?s4)\<rparr>"
  have h: "handleClientIdentification e Extension ip now s = Normal (notifyXfetchClients True now ?s5)"
    using w none
    by (simp add: handleClientIdentification_def Let_def set_clients_def clients_def send_to_def
          update_conv')
  have f5: "clients_extension ?s5 = [(e, nextObject s)]"
      "map_of (objects ?s5) (nextObject s) = Some (new_clientData e ip now)"
      "accepts e ?s5" "pendingRequests ?s5 = pendingRequests s"
      "pendingRequestsQueue ?s5 = pendingRequestsQueue s"
      "server_timers ?s5 = server_timers s" "server_nextTimer ?s5 = server_nextTimer s"
    using w by (simp_all add: update_conv' accepts_def)
  have fl: "failures r c ?s5 = failures r c s" for r c
    using w by (auto simp: failures_def outbox_def update_conv')
  show ?thesis
    unfolding h using f5 fl by (simp add: notifyXfetchClients_effect)
qed

lemma bestClient_single:
  assumes "clients_extension s = [(e, a)]" "map_of (objects s) a = Some cd" "client cd = e"
    "healthStatus cd = healthy" "ready e s = OPEN"
  shows "bestClient s = Some e"
  using assms by (simp add: bestClient_def healthScore_def)

lemma retry_dispatches:
  assumes tm: "map_of (server_timers s) t = Some \<lparr>st_delay = d, st_action = RetryValidate m c count\<rparr>"
    and ce: "clients_extension s = [(e, a)]" and ob: "map_of (objects s) a = Some cd"
    and cd: "client cd = e" "healthStatus cd = healthy" and acc: "accepts e s"
  shows "\<exists>s'. server_fire t now s = Normal s'
      \<and> outbox e s' = outbox e s @ [Forwarded m]
      \<and> (\<forall>c'. c' \<noteq> e \<longrightarrow> outbox c' s' = outbox c' s)
      \<and> map_of (pendingRequestsQueue s') (m_id m) = None
      \<and> pendingRequests s' = pendingRequests s
      \<and> server_nextTimer s' = server_nextTimer s
      \<and> map_of (server_timers s') t = None"
proof -
  let ?s1 = "s\<lparr>server_timers := AList.delete t (server_timers s),
          pendingRequestsQueue := AList.delete (m_id m) (pendingRequestsQueue s)\<rparr>"
  obtain w where w: "map_of (sockets s) e = Some w" "readyState w = OPEN" "\<not> sendThrows w"
    using acc by (auto simp: accepts_def split: option.splits)
  have rd: "ready e ?s1 = OPEN" using w by (simp add: ready_def)
  have best: "bestClient ?s1 = Some e"
    using ce ob cd rd by (intro bestClient_single[where a = a and cd = cd]) simp_all
  have v: "validateExtensionClients m c (count + 1) now ?s1 =
      Normal (?s1\<lparr>sockets := AList.update e (w\<lparr>sent := sent w @ [Forwarded m]\<rparr>) (sockets ?s1)\<rparr>)"
    using ce best rd w
    by (simp add: validateExtensionClients_def sendToExtension_def send_to_def)
  have fire_eq: "server_fire t now s =
      Normal (?s1\<lparr>sockets := AList.update e (w\<lparr>sent := sent w @ [Forwarded m]\<rparr>) (sockets ?s1)\<rparr>)"
    unfolding server_fire_retry[OF tm] by (rule v)
  show ?thesis
    unfolding fire_eq using w by (simp add: outbox_def update_conv' delete_conv')
qed

lemma window_dispatch:
  assumes q: "queued_at m c count t sq" and acc: "accepts e sq"
  shows "\<exists>sq' s''. handleClientIdentification e Extension ip tn sq = Normal sq'
      \<and> server_fire t tf sq' = Normal s''
      \<and> outbox e s'' = outbox e sq' @ [Forwarded m]
      \<and> failures (m_id m) c s'' = failures (m_id m) c sq
      \<and> map_of (pendingRequestsQueue s'') (m_id m) = None
      \<and> pendingRequests s'' = pendingRequests sq
      \<and> server_nextTimer s'' = server_nextTimer sq
      \<and> map_of (server_timers s'') t = None"
proof -
  have tm: "map_of (server_timers sq) t = Some \<lparr>st_delay = 2000, st_action = RetryValidate m c count\<rparr>"
    and ce: "clients_extension sq = []"
    using q by (simp_all add: queued_at_def)
  obtain sq' where sq': "handleClientIdentification e Extension ip tn sq = Normal sq'"
      "clients_extension sq' = [(e, nextObject sq)]"
      "map_of (objects sq') (nextObject sq) = Some (new_clientData e ip tn)"
      "accepts e sq'" "pendingRequests sq' = pendingRequests sq"
      "server_timers sq' = server_timers sq" "server_nextTimer sq' = server_nextTimer sq"
      "\<forall>r c. failures r c sq' = failures r c sq"
    using executor_identifies[OF ce acc, of ip tn] by blast
  have tm': "map_of (server_timers sq') t = Some \<lparr>st_delay = 2000, st_action = RetryValidate m c count\<rparr>"
    using tm sq'(6) by simp
  have cd: "client (new_clientData e ip tn) = e" "healthStatus (new_clientData e ip tn) = healthy"
    by (simp_all add: new_clientData_def)
  obtain s'' where s'': "server_fire t tf sq' = Normal s''"
      "outbox e s'' = outbox e sq' @ [Forwarded m]"
      "\<forall>c'. c' \<noteq> e \<longrightarrow> outbox c' s'' = outbox c' sq'"
      "map_of (pendingRequestsQueue s'') (m_id m) = None"
      "pendingRequests s'' = pendingRequests sq'"
      "server_nextTimer s'' = server_nextTimer sq'"
      "map_of (server_timers s'') t = None"
    using retry_dispatches[OF tm' sq'(2,3) cd sq'(4), of tf] by blast
  have "failures (m_id m) c s'' = failures (m_id m) c sq'"
    using s''(2,3) by (cases "c = e") (simp_all add: failures_def)
  then have fl: "failures (m_id m) c s'' = failures (m_id m) c sq"
    using sq'(8) by simp
  show ?thesis
    using sq'(1,5,7) s''(1,2,4,5,6,7) fl by simp
qed

text \<open>
  Claim C2. A requester whose socket is open submits a request while no executor is
  registered, and nothing happens but the retry timers firing. The submission and the
  first two retries each leave the request queued behind a timer of 2000 ms, with the
  counts 0, 1, 2, and send the requester nothing; the third retry validates with count
  3, sends the requester the one frame
  \<^verbatim>\<open>{id, error: 'No extension clients available after maximum retries', response: null}\<close>,
  removes the id from both tables and arms no further timer. And from any state of that
  window: if an executor whose socket is open identifies, the retry timer of the queued
  request, once it fires, sends the request to that executor, sends the requester no
  failure frame, leaves the in-flight table alone, empties the queue entry and arms no
  further timer.
\<close>

theorem no_executor_retry_window:
  assumes none: "clients_extension s = []" and acc: "accepts c s"
  shows "(\<exists>s0 s1 s2 s3.
            handleXfetchRequest c message t0 s = Normal s0
          \<and> server_fire (server_nextTimer s) t1 s0 = Normal s1
          \<and> server_fire (server_nextTimer s + 1) t2 s1 = Normal s2
          \<and> server_fire (server_nextTimer s + 2) t3 s2 = Normal s3
          \<and> queued_at message c 0 (server_nextTimer s) s0
          \<and> queued_at message c 1 (server_nextTimer s + 1) s1
          \<and> queued_at message c 2 (server_nextTimer s + 2) s2
          \<and> outbox c s0 = outbox c s \<and> outbox c s1 = outbox c s \<and> outbox c s2 = outbox c s
          \<and> outbox c s3 =
              outbox c s @
              [Failure (m_id message) ''No extension clients available after maximum retries'']
          \<and> map_of (pendingRequests s3) (m_id message) = None
          \<and> map_of (pendingRequestsQueue s3) (m_id message) = None
          \<and> server_nextTimer s3 = server_nextTimer s + 3
          \<and> map_of (server_timers s3) (server_nextTimer s + 2) = None)
       \<and> (queued_at message c count t sq \<and> accepts e sq \<longrightarrow>
            (\<exists>sq' s''.
               handleClientIdentification e Extension ip tn sq = Normal sq'
             \<and> server_fire t tf sq' = Normal s''
             \<and> outbox e s'' = outbox e sq' @ [Forwarded message]
             \<and> failures (m_id message) c s'' = failures (m_id message) c sq
             \<and> map_of (pendingRequestsQueue s'') (m_id message) = None
             \<and> pendingRequests s'' = pendingRequests sq
             \<and> server_nextTimer s'' = server_nextTimer sq
             \<and> map_of (server_timers s'') t = None))"
proof -
  let ?T = "server_nextTimer s"
  obtain s0 where s0: "handleXfetchRequest c message t0 s = Normal s0"
      "queued_at message c 0 ?T s0" "sockets s0 = sockets s"
    using submit_queued[OF none, of c message t0] by blast
  have lt1: "(0::nat) + 1 < 3" and lt2: "(1::nat) + 1 < 3" and ge3: "\<not> (2::nat) + 1 < 3"
    by simp_all
  obtain s1 where s1: "server_fire ?T t1 s0 = Normal s1"
      "queued_at message c 1 (?T + 1) s1" "sockets s1 = sockets s0"
    using retry_requeues[OF s0(2) lt1, of t1, unfolded add_0] by blast
  obtain s2 where s2: "server_fire (?T + 1) t2 s1 = Normal s2"
      "queued_at message c 2 (?T + 2) s2" "sockets s2 = sockets s1"
  proof -
    have e: "(1::nat) + 1 = 2" "?T + 1 + 1 = ?T + 2" by simp_all
    show ?thesis
      using retry_requeues[OF s1(2) lt2, of t2, unfolded e] that by blast
  qed
  have acc2: "accepts c s2"
    using acc s0(3) s1(3) s2(3) by (simp add: accepts_def)
  have ob: "outbox c s0 = outbox c s" "outbox c s1 = outbox c s" "outbox c s2 = outbox c s"
    using s0(3) s1(3) s2(3) by (simp_all add: outbox_def)
  obtain s3 where s3: "server_fire (?T + 2) t3 s2 = Normal s3"
      "outbox c s3 = outbox c s @
         [Failure (m_id message) ''No extension clients available after maximum retries'']"
      "map_of (pendingRequests s3) (m_id message) = None"
      "map_of (pendingRequestsQueue s3) (m_id message) = None"
      "server_nextTimer s3 = ?T + 3" "map_of (server_timers s3) (?T + 2) = None"
  proof -
    have e: "Suc (?T + 2) = ?T + 3" by simp
    show ?thesis
      using retry_gives_up[OF s2(2) ge3 acc2, of t3, unfolded e ob(3)] that by blast
  qed
  have chain: "\<exists>s0 s1 s2 s3.
            handleXfetchRequest c message t0 s = Normal s0
          \<and> server_fire (server_nextTimer s) t1 s0 = Normal s1
          \<and> server_fire (server_nextTimer s + 1) t2 s1 = Normal s2
          \<and> server_fire (server_nextTimer s + 2) t3 s2 = Normal s3
          \<and> queued_at message c 0 (server_nextTimer s) s0
          \<and> queued_at message c 1 (server_nextTimer s + 1) s1
          \<and> queued_at message c 2 (server_nextTimer s + 2) s2
          \<and> outbox c s0 = outbox c s \<and> outbox c s1 = outbox c s \<and> outbox c s2 = outbox c s
          \<and> outbox c s3 =
              outbox c s @
              [Failure (m_id message) ''No extension clients available after maximum retries'']
          \<and> map_of (pendingRequests s3) (m_id message) = None
          \<and> map_of (pendingRequestsQueue s3) (m_id message) = None
          \<and> server_nextTimer s3 = server_nextTimer s + 3
          \<and> map_of (server_timers s3) (server_nextTimer s + 2) = None"
    by (intro exI[of _ s0] exI[of _ s1] exI[of _ s2] exI[of _ s3] conjI
          s0(1,2) s1(1,2) s2(1,2) s3 ob)
  show ?thesis
    using chain window_dispatch[of message c count t sq e ip tn tf] by blast
qed

lemma idle_requester_facts:
  "clients_extension idle_requester = []" "accepts 2 idle_requester"
  "server_nextTimer idle_requester = 0"
  "outbox 2 idle_requester = [Welcome, Identified, Availability False None]"
  by (simp_all add: idle_requester_def broker_defs routing_defs)

lemma executor_arrives_facts:
  "queued_at get_feed 2 0 0 executor_arrives" "accepts 1 executor_arrives"
  "failures ''r1'' 2 executor_arrives = []"
  by (simp_all add: executor_arrives_def queued_at_def failures_def broker_defs routing_defs)

theorem no_executor_retry_window_witness:
  "clients_extension idle_requester = [] \<and> accepts 2 idle_requester
   \<and> (\<exists>s0 s1 s2 s3.
          handleXfetchRequest 2 get_feed 100 idle_requester = Normal s0
        \<and> server_fire 0 2100 s0 = Normal s1
        \<and> server_fire 1 4100 s1 = Normal s2
        \<and> server_fire 2 6100 s2 = Normal s3
        \<and> outbox 2 s3 =
            [Welcome, Identified, Availability False None,
             Failure ''r1'' ''No extension clients available after maximum retries''])
   \<and> queued_at get_feed 2 0 0 executor_arrives \<and> accepts 1 executor_arrives
   \<and> (\<exists>sq' s''.
          handleClientIdentification 1 Extension ''127.0.0.1'' 3000 executor_arrives = Normal sq'
        \<and> server_fire 0 4100 sq' = Normal s''
        \<and> outbox 1 s'' = outbox 1 sq' @ [Forwarded get_feed]
        \<and> failures ''r1'' 2 s'' = [])"
proof -
  have rid: "m_id get_feed = ''r1''" by (simp add: get_feed_def)
  have e: "(0::nat) + 1 = 1" "(0::nat) + 2 = 2" "(0::nat) + 3 = 3"
      "[Welcome, Identified, Availability False None] @
         [Failure ''r1'' ''No extension clients available after maximum retries''] =
       [Welcome, Identified, Availability False None,
        Failure ''r1'' ''No extension clients available after maximum retries'']"
    by simp_all
  note th = no_executor_retry_window[OF idle_requester_facts(1,2),
      where message = get_feed and ?t0.0 = 100 and ?t1.0 = 2100 and ?t2.0 = 4100 and ?t3.0 = 6100
        and count = 0 and t = 0 and sq = executor_arrives and e = 1 and ip = "''127.0.0.1''"
        and tn = 3000 and tf = 4100,
      unfolded idle_requester_facts(3,4) rid e executor_arrives_facts(3)]
  have chain: "\<exists>s0 s1 s2 s3.
          handleXfetchRequest 2 get_feed 100 idle_requester = Normal s0
        \<and> server_fire 0 2100 s0 = Normal s1
        \<and> server_fire 1 4100 s1 = Normal s2
        \<and> server_fire 2 6100 s2 = Normal s3
        \<and> outbox 2 s3 =
            [Welcome, Identified, Availability False None,
             Failure ''r1'' ''No extension clients available after maximum retries'']"
    using th by blast
  have disp: "\<exists>sq' s''.
          handleClientIdentification 1 Extension ''127.0.0.1'' 3000 executor_arrives = Normal sq'
        \<and> server_fire 0 4100 sq' = Normal s''
        \<and> outbox 1 s'' = outbox 1 sq' @ [Forwarded get_feed]
        \<and> failures ''r1'' 2 s'' = []"
    using th executor_arrives_facts(1,2) by blast
  show ?thesis
    by (intro conjI idle_requester_facts(1,2) executor_arrives_facts(1,2) chain disp)
qed


lemma count_failed_fields [simp]:
  "pendingRequests (count_failed c s) = pendingRequests s"
  "pendingRequestsQueue (count_failed c s) = pendingRequestsQueue s"
  "sockets (count_failed c s) = sockets s"
  "server_timers (count_failed c s) = server_timers s"
  by (simp_all add: count_failed_def split: option.splits)




subsection \<open>One request id on the broker's timeline\<close>

text \<open>A request has been dispatched when some connection's frames hold the message.\<close>

lemma outbox_empty: "map_of (sockets s) c = None \<Longrightarrow> outbox c s = []"
  by (simp add: outbox_def)

lemma dispatched_iff:
  "dispatched r s \<longleftrightarrow> (\<exists>c. \<exists>f\<in>set (outbox c s). is_forwarded r f)"
proof
  assume "dispatched r s"
  then show "\<exists>c. \<exists>f\<in>set (outbox c s). is_forwarded r f"
    by (auto simp: dispatched_def list_ex_iff)
next
  assume "\<exists>c. \<exists>f\<in>set (outbox c s). is_forwarded r f"
  then obtain c f where cf: "f \<in> set (outbox c s)" "is_forwarded r f" by blast
  then have "map_of (sockets s) c \<noteq> None" by (cases "map_of (sockets s) c") (simp_all add: outbox_def)
  then have "c \<in> fst ` set (sockets s)" by (simp add: map_of_eq_None_iff)
  then show "dispatched r s"
    using cf by (auto simp: dispatched_def list_ex_iff)
qed

lemma dispatched_marked:
  "dispatched r s \<longleftrightarrow> (\<exists>c. \<exists>f\<in>set (marked r c s). is_forwarded r f)"
  by (auto simp: dispatched_iff marked_def neutral_def)

lemma terminals_marked:
  "terminals r c s = filter (\<lambda>f. is_answer r f \<or> is_failure r f) (marked r c s)"
  by (auto simp: terminals_def marked_def neutral_def intro: filter_cong)

text \<open>
  Steps that are not about \<^verbatim>\<open>r\<close> compose, and they keep each of the conditions an id can
  be in.
\<close>

lemma calm_refl: "calm r s s"
  by (simp add: calm_def)

lemma calm_trans: "calm r s s1 \<Longrightarrow> calm r s1 s2 \<Longrightarrow> calm r s s2"
  unfolding calm_def by (intro conjI allI impI) (metis+)

lemma calm_fold:
  assumes "\<And>x s. calm r s (f x s)"
  shows "calm r s (fold f xs s)"
proof (induction xs arbitrary: s)
  case Nil
  show ?case by (simp add: calm_refl)
next
  case (Cons x xs)
  show ?case using calm_trans[OF assms[of s x] Cons[of "f x s"]] by simp
qed

lemma calm_same:
  assumes "pendingRequestsQueue s' = pendingRequestsQueue s" "pendingRequests s' = pendingRequests s"
    "server_timers s' = server_timers s" "sockets s' = sockets s"
  shows "calm r s s'"
  using assms by (simp add: calm_def marked_def outbox_def)

lemma calm_idle: "calm r s s' \<Longrightarrow> idle r s \<Longrightarrow> idle r s'"
  unfolding calm_def idle_def by metis

lemma calm_undispatched: "calm r s s' \<Longrightarrow> \<not> dispatched r s \<Longrightarrow> \<not> dispatched r s'"
  unfolding calm_def dispatched_marked
  by (metis empty_iff list.set(1))

lemma calm_parked: "calm r s s' \<Longrightarrow> parked r s \<Longrightarrow> parked r s'"
  using calm_undispatched[of r s s'] unfolding calm_def parked_def by metis

lemma calm_unanswered: "calm r s s' \<Longrightarrow> unanswered r s \<Longrightarrow> unanswered r s'"
  unfolding calm_def unanswered_def terminals_marked
  by (metis filter.simps(1))

lemma calm_answered_once: 
  assumes "calm r s s'" "answered_once r s" 
  shows "answered_once r s'"
proof -
  have len: "length (terminals r c s') \<le> length (terminals r c s)" for c
    using assms(1) unfolding calm_def terminals_marked
    by (metis filter.simps(1) le_refl list.size(3) zero_le)
  have p: "map_of (pendingRequests s') r \<noteq> None \<longrightarrow> map_of (pendingRequests s) r \<noteq> None"
    using assms(1) by (simp add: calm_def)
  show ?thesis
    unfolding answered_once_def
  proof
    fix c
    have "length (terminals r c s) + (if map_of (pendingRequests s) r = None then 0 else 1) \<le> 1"
      using assms(2) by (simp add: answered_once_def)
    then show "length (terminals r c s') + (if map_of (pendingRequests s') r = None then 0 else 1) \<le> 1"
      using len[of c] p by (auto split: if_splits)
  qed
qed

lemma calm_no_entry:
  "calm r s s' \<Longrightarrow> map_of (pendingRequests s) r = None \<Longrightarrow> map_of (pendingRequests s') r = None"
  unfolding calm_def by blast

lemma calm_send_to:
  assumes "send_to c f s = Some s'" "neutral r f"
  shows "calm r s s'"
  using assms send_to_effect[OF assms(1)]
  by (simp add: calm_def marked_def)

lemma calm_modify: "calm r s (modify a f s)"
  by (rule calm_same) simp_all


text \<open>The operations of the broker that are calm for every id.\<close>

lemma map_of_filter_absent: "map_of xs k = None \<Longrightarrow> map_of (filter P xs) k = None"
  by (auto simp: map_of_eq_None_iff)

lemma outbox_update:
  "outbox c' (s\<lparr>sockets := AList.update c w (sockets s)\<rparr>) = (if c' = c then sent w else outbox c' s)"
  by (simp add: outbox_def update_conv')

lemma calm_purge:
  assumes "pendingRequestsQueue s' = pendingRequestsQueue s"
    "pendingRequests s' = filter P (pendingRequests s)"
    "server_timers s' = server_timers s" "\<And>c. outbox c s' = outbox c s"
  shows "calm r s s'"
proof -
  have "map_of (pendingRequests s') r \<noteq> None \<longrightarrow> map_of (pendingRequests s) r \<noteq> None"
    using map_of_filter_absent[of "pendingRequests s" r P] assms(2) by (cases "map_of (pendingRequests s) r") simp_all
  then show ?thesis
    using assms(1,3,4) by (simp add: calm_def marked_def)
qed

lemma calm_clearTimeout: "calm r s (server_clearTimeout t s)"
  by (auto simp: calm_def marked_def server_clearTimeout_def delete_conv' split: if_splits)

lemma calm_setTimeout: "\<not> retry_of r a \<Longrightarrow> calm r s (snd (server_setTimeout a d s))"
  by (auto simp: calm_def marked_def server_setTimeout_def update_conv' split: if_splits)

lemma neutral_frames [simp]:
  "neutral r Welcome" "neutral r (Ping a b)" "neutral r (Pong a)" "neutral r Identified"
  "neutral r (Availability av ts)"
  "neutral r (Forwarded m) \<longleftrightarrow> m_id m \<noteq> r"
  "neutral r (Answer m') \<longleftrightarrow> r_id m' \<noteq> r"
  "neutral r (Failure r' reason) \<longleftrightarrow> r' \<noteq> r"
  by (simp_all add: neutral_def)

text \<open>The handlers that are calm for every id: connection events, heartbeat, cleanup.\<close>

lemma calm_connection: "calm r s (state_of (connection c s))"
proof -
  let ?s1 = "s\<lparr>sockets := AList.update c (socket_in OPEN Unknown) (sockets s),
                 stats := (stats s)\<lparr>totalConnections := totalConnections (stats s) + 1,
                                      activeConnections := activeConnections (stats s) + 1\<rparr>\<rparr>"
  have c1: "calm r s ?s1"
    by (auto simp: calm_def marked_def outbox_def update_conv' socket_in_def)
  show ?thesis
  proof (cases "send_to c Welcome ?s1")
    case None
    then show ?thesis using c1 by (simp add: connection_def Let_def)
  next
    case (Some s2)
    then have "calm r ?s1 s2" by (rule calm_send_to) simp
    then have "calm r s s2" using c1 calm_trans by blast
    then show ?thesis using Some by (simp add: connection_def Let_def)
  qed
qed

lemma calm_handlePing: "calm r s (handlePing c now s)"
  by (cases "send_to c (Pong now) s") (simp_all add: handlePing_def calm_refl calm_send_to)

lemma calm_cleanupTick: "calm r s (cleanupTick now s)"
  by (rule calm_purge[where P = "\<lambda>e. \<not> int now - int (pr_timestamp (snd e)) > int cleanup_interval"])
     (simp_all add: cleanupTick_def)

lemma calm_stats: "calm r s (s\<lparr>stats := st\<rparr>)"
  by (rule calm_same) simp_all

lemma calm_handlePongResponse: "calm r s (handlePongResponse c now s)"
proof -
  have step: "calm r s ((modify a f (case topt of None \<Rightarrow> s | Some t \<Rightarrow> server_clearTimeout t s))
      \<lparr>stats := st\<rparr>)" for a f topt st
  proof -
    have 1: "calm r s (case topt of None \<Rightarrow> s | Some t \<Rightarrow> server_clearTimeout t s)"
      by (cases topt) (simp_all add: calm_refl calm_clearTimeout)
    show ?thesis
      by (rule calm_trans[OF 1], rule calm_trans[OF calm_modify], rule calm_stats)
  qed
  show ?thesis
    by (auto simp add: handlePongResponse_def Let_def calm_refl step split: option.splits)
qed

lemma calm_pongTimeout: "calm r s (pongTimeout a s)"
proof -
  have "calm r s ((modify a f s)\<lparr>stats := st\<rparr>)" for f st
    by (rule calm_trans[OF calm_modify], rule calm_stats)
  then show ?thesis
    by (auto simp add: pongTimeout_def calm_refl split: option.splits)
qed


lemma calm_ping_client: "calm r s (ping_client t a now s)"
proof (cases "map_of (objects s) a")
  case None
  then show ?thesis by (simp add: ping_client_def calm_refl)
next
  case (Some cd)
  show ?thesis
  proof (cases "ready (client cd) s = OPEN")
    case False
    then show ?thesis using Some by (simp add: ping_client_def calm_refl)
  next
    case True
    let ?s1 = "modify a (\<lambda>cd. cd\<lparr>lastPingSent := Some now, awaitingPong := True\<rparr>) s"
    have c1: "calm r s ?s1" by (rule calm_modify)
    show ?thesis
    proof (cases "send_to (client cd) (Ping now heartbeat_interval) ?s1")
      case None
      then show ?thesis using Some True c1 by (simp add: ping_client_def Let_def)
    next
      case s2: (Some s2)
      let ?s3 = "s2\<lparr>stats := (stats s2)\<lparr>heartbeats_sent := heartbeats_sent (stats s2) + 1\<rparr>\<rparr>"
      let ?s4 = "snd (server_setTimeout (PongTimeout t a) heartbeat_timeout ?s3)"
      have c2: "calm r ?s1 s2" using s2 by (rule calm_send_to) simp
      have c3: "calm r s2 ?s3" by (rule calm_stats)
      have c4: "calm r ?s3 ?s4" by (rule calm_setTimeout) simp
      have c5: "calm r ?s4 (modify a f ?s4)" for f by (rule calm_modify)
      have "calm r s (modify a f ?s4)" for f
        using c1 c2 c3 c4 c5[of f] calm_trans by blast
      then show ?thesis
        using Some True s2 by (simp add: ping_client_def Let_def split_beta)
    qed
  qed
qed

lemma calm_sendHeartbeats: "calm r s (sendHeartbeats t now s)"
  unfolding sendHeartbeats_def by (rule calm_fold) (rule calm_ping_client)

lemma calm_terminate: "calm r s (terminate c s)"
  by (auto simp: terminate_def calm_def marked_def outbox_def update_conv' split: option.splits)

lemma calm_set_clients: "calm r s (set_clients t m s)"
  by (cases t) (simp_all add: set_clients_def calm_refl calm_same)

lemma calm_purge_requests: "calm r s (purge_requests c s)"
  by (rule calm_purge[where P = "\<lambda>e. pr_client (snd e) \<noteq> c"]) (simp_all add: purge_requests_def)

lemma calm_check_client: "calm r s (check_client t clientId a s)"
proof (cases "map_of (objects s) a")
  case None
  then show ?thesis by (simp add: check_client_def calm_refl)
next
  case (Some cd)
  show ?thesis
  proof (cases "missedHeartbeats cd \<ge> maxMissed")
    case False
    then show ?thesis using Some by (simp add: check_client_def calm_refl)
  next
    case True
    let ?s1 = "(case pongTimeoutId cd of None \<Rightarrow> s | Some t \<Rightarrow> server_clearTimeout t s)"
    let ?s2 = "(if ready (client cd) ?s1 = OPEN then terminate (client cd) ?s1 else ?s1)"
    let ?s3 = "set_clients t (AList.delete clientId (clients t ?s2)) ?s2"
    let ?s4 = "?s3\<lparr>stats := (stats ?s3)\<lparr>disconnections := disconnections (stats ?s3) + 1,
                                               activeConnections := activeConnections (stats ?s3) - 1\<rparr>\<rparr>"
    have c1: "calm r s ?s1"
      by (cases "pongTimeoutId cd") (simp_all add: calm_refl calm_clearTimeout)
    have c2: "calm r ?s1 ?s2" by (simp add: calm_refl calm_terminate)
    have c3: "calm r ?s2 ?s3" by (rule calm_set_clients)
    have c4: "calm r ?s3 ?s4" by (rule calm_stats)
    have c5: "calm r ?s4 (purge_requests (client cd) ?s4)" by (rule calm_purge_requests)
    have "calm r s (purge_requests (client cd) ?s4)"
      using c1 c2 c3 c4 c5 calm_trans by blast
    then show ?thesis
      using Some True by (simp add: check_client_def Let_def)
  qed
qed

lemma calm_checkClientHealth: "calm r s (checkClientHealth t s)"
  unfolding checkClientHealth_def by (rule calm_fold) (rule calm_check_client)

lemma calm_heartbeatTick: "calm r s (heartbeatTick now s)"
  unfolding heartbeatTick_def
  by (rule calm_trans[OF calm_sendHeartbeats], rule calm_trans[OF calm_sendHeartbeats],
      rule calm_trans[OF calm_checkClientHealth], rule calm_checkClientHealth)

lemma calm_notify_client: "calm r s (notify_client av now a s)"
  by (auto simp: notify_client_def calm_refl calm_send_to split: option.splits)

lemma calm_notifyXfetchClients: "calm r s (notifyXfetchClients av now s)"
  unfolding notifyXfetchClients_def by (rule calm_fold) (rule calm_notify_client)

lemma calm_retype:
  "map_of (sockets s) c = Some w \<Longrightarrow>
   calm r s (s\<lparr>sockets := AList.update c (w\<lparr>sock_clientType := t\<rparr>) (sockets s)\<rparr>)"
  by (auto simp: calm_def marked_def outbox_def update_conv')

lemma calm_handleClientIdentification:
  "calm r s (state_of (handleClientIdentification c t ip now s))"
proof (cases "map_of (sockets s) c")
  case None
  then show ?thesis by (simp add: handleClientIdentification_def calm_refl)
next
  case (Some w)
  let ?s1 = "s\<lparr>sockets := AList.update c (w\<lparr>sock_clientType := t\<rparr>) (sockets s)\<rparr>"
  let ?s2 = "?s1\<lparr>objects := AList.update (nextObject ?s1) (new_clientData c ip now) (objects ?s1),
                       nextObject := Suc (nextObject ?s1)\<rparr>"
  let ?s3 = "set_clients t (AList.update c (nextObject ?s1) (clients t ?s2)) ?s2"
  let ?s4 = "(if sock_clientType w \<noteq> Unknown
                     then ?s3\<lparr>stats := (stats ?s3)\<lparr>reconnections := reconnections (stats ?s3) + 1\<rparr>\<rparr>
                     else ?s3)"
  have c1: "calm r s ?s1" using Some by (rule calm_retype)
  have c2: "calm r ?s1 ?s2" by (rule calm_same) simp_all
  have c3: "calm r ?s2 ?s3" by (rule calm_set_clients)
  have c4: "calm r ?s3 ?s4" by (simp add: calm_refl calm_stats)
  have c04: "calm r s ?s4" using c1 c2 c3 c4 calm_trans by blast
  have h: "handleClientIdentification c t ip now s =
      (case send_to c Identified ?s4 of
                None \<Rightarrow> Throws ''send failed'' ?s4
              | Some s5 \<Rightarrow>
                  (if t = Xfetch then
                     (case send_to c (Availability (length (clients_extension s5) = 1) None) s5 of
                        None \<Rightarrow> Throws ''send failed'' s5
                      | Some s6 \<Rightarrow> Normal s6)
                   else if t = Extension \<and> length (clients_extension s5) = 1 then
                     Normal (notifyXfetchClients True now s5)
                   else Normal s5))"
    using Some by (simp add: handleClientIdentification_def Let_def)
  show ?thesis
  proof (cases "send_to c Identified ?s4")
    case None
    then show ?thesis using c04 by (simp add: h)
  next
    case s5: (Some s5)
    have c5: "calm r ?s4 s5" using s5 by (rule calm_send_to) simp
    have c05: "calm r s s5" using c04 c5 calm_trans by blast
    have c6: "calm r s s6" if "send_to c (Availability b None) s5 = Some s6" for b s6
      using calm_trans[OF c05 calm_send_to[OF that]] by simp
    have c7: "calm r s (notifyXfetchClients True now s5)"
      using calm_trans[OF c05 calm_notifyXfetchClients] .
    show ?thesis
      unfolding h using s5 c05 c6 c7 by (auto split: option.splits)
  qed
qed

lemma calm_closeHandler: "calm r s (state_of (closeHandler c now s))"
proof (cases "map_of (sockets s) c")
  case None
  then show ?thesis by (simp add: closeHandler_def calm_refl)
next
  case (Some w)
  let ?s0 = "s\<lparr>sockets := AList.update c (w\<lparr>readyState := CLOSED\<rparr>) (sockets s)\<rparr>"
  let ?s1 = "set_clients (sock_clientType w) (AList.delete c (clients (sock_clientType w) ?s0)) ?s0"
  let ?s2 = "?s1\<lparr>pendingRequests := filter (\<lambda>e. pr_client (snd e) \<noteq> c) (pendingRequests ?s1)\<rparr>"
  let ?s3 = "(if sock_clientType w = Extension \<and> clients_extension ?s2 = []
                           then notifyXfetchClients False now ?s2 else ?s2)"
  have c0: "calm r s ?s0"
    using Some by (auto simp: calm_def marked_def outbox_def update_conv')
  have c1: "calm r ?s0 ?s1" by (rule calm_set_clients)
  have c2: "calm r ?s1 ?s2"
    by (rule calm_purge[where P = "\<lambda>e. pr_client (snd e) \<noteq> c"]) simp_all
  have c3: "calm r ?s2 ?s3" by (simp add: calm_refl calm_notifyXfetchClients)
  have c4: "calm r ?s3 (?s3\<lparr>stats := st\<rparr>)" for st by (rule calm_stats)
  have "calm r s (?s3\<lparr>stats := st\<rparr>)" for st
    using c0 c1 c2 c3 c4[of st] calm_trans by blast
  then show ?thesis
    using Some c0 by (simp add: closeHandler_def Let_def)
qed


text \<open>
  Routing a message with another id is calm for \<^verbatim>\<open>r\<close>: a submission, a retry timer, an
  executor's response.
\<close>

lemma sendToExtension_cases:
  "sendToExtension m s = (False, s)
   \<or> (\<exists>c s'. sendToExtension m s = (True, s') \<and> send_to c (Forwarded m) s = Some s')"
  by (auto simp: sendToExtension_def split: option.splits)

lemma fail_request_cases:
  "fail_request m c reason s =
     Throws ''send failed'' (s\<lparr>pendingRequestsQueue := AList.delete (m_id m) (pendingRequestsQueue s)\<rparr>)
   \<or> (\<exists>s2. fail_request m c reason s =
          Normal (s2\<lparr>pendingRequests := AList.delete (m_id m) (pendingRequests s2),
                     stats := (stats s2)\<lparr>stats_requestsFailed := stats_requestsFailed (stats s2) + 1,
                                           stats_requestsProcessed := stats_requestsProcessed (stats s2) + 1\<rparr>\<rparr>)
        \<and> (s2 = s\<lparr>pendingRequestsQueue := AList.delete (m_id m) (pendingRequestsQueue s)\<rparr>
           \<or> send_to c (Failure (m_id m) reason)
                (s\<lparr>pendingRequestsQueue := AList.delete (m_id m) (pendingRequestsQueue s)\<rparr>) = Some s2))"
proof -
  let ?s1 = "s\<lparr>pendingRequestsQueue := AList.delete (m_id m) (pendingRequestsQueue s)\<rparr>"
  show ?thesis
  proof (cases "ready c ?s1 = OPEN")
    case False
    then show ?thesis by (intro disjI2 exI[of _ ?s1]) (simp add: fail_request_def Let_def)
  next
    case True
    show ?thesis
    proof (cases "send_to c (Failure (m_id m) reason) ?s1")
      case None
      then show ?thesis using True by (simp add: fail_request_def Let_def)
    next
      case (Some s2)
      then show ?thesis using True by (intro disjI2 exI[of _ s2]) (simp add: fail_request_def Let_def)
    qed
  qed
qed

lemma calm_unqueue: "k \<noteq> r \<Longrightarrow> calm r s (s\<lparr>pendingRequestsQueue := AList.delete k (pendingRequestsQueue s)\<rparr>)"
  by (simp add: calm_def marked_def delete_conv')

lemma calm_forget:
  "k \<noteq> r \<Longrightarrow> calm r s (s\<lparr>pendingRequests := AList.delete k (pendingRequests s), stats := st\<rparr>)"
  by (simp add: calm_def marked_def delete_conv')

lemma calm_sendToExtension:
  assumes "m_id m \<noteq> r"
  shows "calm r s (snd (sendToExtension m s))"
proof -
  have n: "neutral r (Forwarded m)" using assms by simp
  show ?thesis
    using sendToExtension_cases[of m s] calm_send_to[OF _ n] by (auto simp: calm_refl)
qed

lemma calm_fail_request:
  assumes "m_id m \<noteq> r"
  shows "calm r s (state_of (fail_request m c reason s))"
proof -
  let ?s1 = "s\<lparr>pendingRequestsQueue := AList.delete (m_id m) (pendingRequestsQueue s)\<rparr>"
  have c1: "calm r s ?s1" using assms by (rule calm_unqueue)
  have c2: "calm r s s2" if "s2 = ?s1 \<or> send_to c (Failure (m_id m) reason) ?s1 = Some s2" for s2
    using that
  proof
    assume "s2 = ?s1" then show ?thesis using c1 by simp
  next
    assume "send_to c (Failure (m_id m) reason) ?s1 = Some s2"
    moreover have "neutral r (Failure (m_id m) reason)" using assms by simp
    ultimately have "calm r ?s1 s2" by (rule calm_send_to)
    then show ?thesis using c1 calm_trans by blast
  qed
  have c3: "calm r s (s2\<lparr>pendingRequests := AList.delete (m_id m) (pendingRequests s2), stats := st\<rparr>)"
    if "s2 = ?s1 \<or> send_to c (Failure (m_id m) reason) ?s1 = Some s2" for s2 st
    using calm_trans[OF c2[OF that] calm_forget[OF assms]] .
  show ?thesis
    using fail_request_cases[of m c reason s]
  proof (elim disjE exE conjE)
    assume "fail_request m c reason s = Throws ''send failed'' ?s1"
    then show ?thesis using c1 by simp
  next
    fix s2 assume "fail_request m c reason s =
          Normal (s2\<lparr>pendingRequests := AList.delete (m_id m) (pendingRequests s2),
                     stats := (stats s2)\<lparr>stats_requestsFailed := stats_requestsFailed (stats s2) + 1,
                                           stats_requestsProcessed := stats_requestsProcessed (stats s2) + 1\<rparr>\<rparr>)"
      "s2 = ?s1"
    then show ?thesis using c3[of s2] by simp
  next
    fix s2 assume "fail_request m c reason s =
          Normal (s2\<lparr>pendingRequests := AList.delete (m_id m) (pendingRequests s2),
                     stats := (stats s2)\<lparr>stats_requestsFailed := stats_requestsFailed (stats s2) + 1,
                                           stats_requestsProcessed := stats_requestsProcessed (stats s2) + 1\<rparr>\<rparr>)"
      "send_to c (Failure (m_id m) reason) ?s1 = Some s2"
    then show ?thesis using c3[of s2] by simp
  qed
qed

lemma calm_count_failed: "calm r s (count_failed c s)"
  by (simp add: count_failed_def calm_refl calm_modify split: option.splits)

lemma calm_requeue:
  assumes "m_id m \<noteq> r"
  shows "calm r s (s\<lparr>server_timers := AList.update t' \<lparr>st_delay = d, st_action = RetryValidate m c k\<rparr>
                        (AList.delete t (server_timers s)),
                     server_nextTimer := n,
                     pendingRequestsQueue := AList.update (m_id m) q (pendingRequestsQueue s)\<rparr>)"
    and "calm r s (s\<lparr>server_timers := AList.update t' \<lparr>st_delay = d, st_action = RetryValidate m c k\<rparr>
                        (server_timers s),
                     server_nextTimer := n,
                     pendingRequestsQueue := AList.update (m_id m) q (pendingRequestsQueue s)\<rparr>)"
  using assms by (auto simp: calm_def marked_def update_conv' delete_conv' split: if_splits)

lemma calm_validate:
  assumes "m_id m \<noteq> r"
  shows "calm r s (state_of (validateExtensionClients m c k now s))"
proof (cases "clients_extension s = []")
  case True
  show ?thesis
  proof (cases "k < 3")
    case lt: True
    show ?thesis
    proof (cases "map_of (pendingRequestsQueue s) (m_id m)")
      case None
      show ?thesis
        unfolding validate_queues[OF True lt None] using calm_requeue(2)[OF assms] by simp
    next
      case (Some q)
      show ?thesis
        unfolding validate_queues_again[OF True lt Some] using calm_requeue(1)[OF assms] by simp
    qed
  next
    case False
    then show ?thesis
      using True calm_fail_request[OF assms] by (simp add: validateExtensionClients_def)
  qed
next
  case False
  show ?thesis
  proof (cases "sendToExtension m s")
    case (Pair b s1)
    have c1: "calm r s s1" using calm_sendToExtension[OF assms, of s] Pair by simp
    show ?thesis
    proof (cases b)
      case True
      then show ?thesis using False Pair c1 by (simp add: validateExtensionClients_def)
    next
      case nb: False
      let ?f = "fail_request m c ''Failed to send request to extension clients'' s1"
      have c2: "calm r s (state_of ?f)"
        using calm_trans[OF c1 calm_fail_request[OF assms]] .
      have "calm r s (state_of (case ?f of Normal s2 \<Rightarrow> Normal (count_failed c s2) | Throws e s2 \<Rightarrow> Throws e s2))"
        using c2 calm_trans[OF _ calm_count_failed] by (cases ?f) auto
      then show ?thesis using False Pair nb by (simp add: validateExtensionClients_def)
    qed
  qed
qed

lemma calm_remember:
  "k \<noteq> r \<Longrightarrow> calm r s (s\<lparr>pendingRequests := AList.update k p (pendingRequests s)\<rparr>)"
  by (simp add: calm_def marked_def update_conv')

lemma calm_handleXfetchRequest:
  assumes "m_id m \<noteq> r"
  shows "calm r s (state_of (handleXfetchRequest c m now s))"
proof -
  let ?s1 = "(case map_of (clients_xfetch s) c of
                  None \<Rightarrow> s
                | Some a \<Rightarrow> modify a (\<lambda>cd. cd\<lparr>lastActivity := now\<rparr>) s)"
  have c1: "calm r s ?s1" by (simp add: calm_refl calm_modify split: option.splits)
  have c2: "calm r ?s1 (?s1\<lparr>pendingRequests := AList.update (m_id m) p (pendingRequests ?s1)\<rparr>)" for p
    using assms by (rule calm_remember)
  show ?thesis
    unfolding handleXfetchRequest_def Let_def
    by (rule calm_trans[OF c1], rule calm_trans[OF c2], rule calm_validate[OF assms])
qed

lemma calm_server_fire:
  assumes "\<And>tm. map_of (server_timers s) t = Some tm \<Longrightarrow> \<not> retry_of r (st_action tm)"
  shows "calm r s (state_of (server_fire t now s))"
proof (cases "map_of (server_timers s) t")
  case None
  then show ?thesis by (simp add: server_fire_def calm_refl)
next
  case (Some tm)
  have c1: "calm r s (server_clearTimeout t s)" by (rule calm_clearTimeout)
  show ?thesis
  proof (cases "st_action tm")
    case (PongTimeout ty a)
    then show ?thesis
      using Some calm_trans[OF c1 calm_pongTimeout] by (simp add: server_fire_def Let_def)
  next
    case (RetryValidate m c k)
    then have ne: "m_id m \<noteq> r" using assms[OF Some] by simp
    let ?s1 = "server_clearTimeout t s"
    have c2: "calm r ?s1 (?s1\<lparr>pendingRequestsQueue := AList.delete (m_id m) (pendingRequestsQueue ?s1)\<rparr>)"
      using ne by (rule calm_unqueue)
    show ?thesis
      using Some RetryValidate calm_trans[OF c1 calm_trans[OF c2 calm_validate[OF ne]]]
      by (simp add: server_fire_def Let_def)
  qed
qed

lemma calm_touch: "calm r s (touch e now s)"
  by (rule calm_same) simp_all

lemma calm_handleExtensionResponse:
  assumes "r_id m \<noteq> r"
  shows "calm r s (handleExtensionResponse e m now s)"
proof (cases "map_of (pendingRequests s) (r_id m)")
  case None
  then show ?thesis by (simp add: handleExtensionResponse_absent calm_touch)
next
  case (Some p)
  have "map_of (pendingRequests (handleExtensionResponse e m now s)) r = map_of (pendingRequests s) r"
    using assms by (simp add: pending_after_response)
  moreover have "marked r c (handleExtensionResponse e m now s) = marked r c s" for c
    using assms by (simp add: marked_def handleExtensionResponse_present(2)[OF Some])
  moreover have "pendingRequestsQueue (handleExtensionResponse e m now s) = pendingRequestsQueue s"
    "server_timers (handleExtensionResponse e m now s) = server_timers s"
    by (simp_all add: handleExtensionResponse_def Let_def touch_def[symmetric] split: option.splits)
  ultimately show ?thesis by (simp add: calm_def)
qed


text \<open>
  Validating a message with id \<^verbatim>\<open>r\<close> from the idle condition, before any dispatch: the
  request is parked behind a new timer, or it stays idle and is either dispatched or
  failed. If no terminal frame had been sent, none is while it is parked, and at most one
  is once it is idle, none as long as the in-flight entry is there.
\<close>

lemma terminals_send_to:
  assumes "send_to c f s = Some s'"
  shows "terminals r c' s' =
     terminals r c' s @ (if c' = c \<and> ready c s = OPEN \<and> (is_answer r f \<or> is_failure r f) then [f] else [])"
  using send_to_effect(12)[OF assms, of c'] by (simp add: terminals_def)

lemma idle_send_to: "send_to c f s = Some s' \<Longrightarrow> idle r s' = idle r s"
  by (simp add: idle_def send_to_effect)

lemma terminals_fields [simp]:
  "terminals r c (s\<lparr>pendingRequests := pr\<rparr>) = terminals r c s"
  "terminals r c (s\<lparr>pendingRequestsQueue := pq\<rparr>) = terminals r c s"
  "terminals r c (s\<lparr>stats := st\<rparr>) = terminals r c s"
  "terminals r c (s\<lparr>server_timers := tm\<rparr>) = terminals r c s"
  "terminals r c (s\<lparr>server_nextTimer := nt\<rparr>) = terminals r c s"
  "terminals r c (s\<lparr>objects := ob\<rparr>) = terminals r c s"
  "terminals r c (modify a f s) = terminals r c s"
  "terminals r c (count_failed x s) = terminals r c s"
  by (simp_all add: terminals_def outbox_def)

lemma dispatched_fields [simp]:
  "dispatched r (s\<lparr>pendingRequests := pr\<rparr>) = dispatched r s"
  "dispatched r (s\<lparr>pendingRequestsQueue := pq\<rparr>) = dispatched r s"
  "dispatched r (s\<lparr>stats := st\<rparr>) = dispatched r s"
  "dispatched r (s\<lparr>server_timers := tm\<rparr>) = dispatched r s"
  "dispatched r (s\<lparr>server_nextTimer := nt\<rparr>) = dispatched r s"
  "dispatched r (s\<lparr>objects := ob\<rparr>) = dispatched r s"
  "dispatched r (modify a f s) = dispatched r s"
  "dispatched r (count_failed x s) = dispatched r s"
  by (simp_all add: dispatched_iff outbox_def)

lemma idle_fields [simp]:
  "idle r (s\<lparr>pendingRequests := pr\<rparr>) = idle r s"
  "idle r (s\<lparr>stats := st\<rparr>) = idle r s"
  "idle r (s\<lparr>objects := ob\<rparr>) = idle r s"
  "idle r (modify a f s) = idle r s"
  "idle r (count_failed x s) = idle r s"
  by (simp_all add: idle_def)

lemma fail_request_settles:
  assumes id: "m_id m = r"
  shows "idle r s \<Longrightarrow> idle r (state_of (fail_request m c reason s))"
    and "unanswered r s \<Longrightarrow> answered_once r (state_of (fail_request m c reason s))"
proof -
  let ?s1 = "s\<lparr>pendingRequestsQueue := AList.delete (m_id m) (pendingRequestsQueue s)\<rparr>"
  let ?F = "\<lambda>s2. s2\<lparr>pendingRequests := AList.delete (m_id m) (pendingRequests s2),
                     stats := (stats s2)\<lparr>stats_requestsFailed := stats_requestsFailed (stats s2) + 1,
                                           stats_requestsProcessed := stats_requestsProcessed (stats s2) + 1\<rparr>\<rparr>"
  consider (raise) "fail_request m c reason s = Throws ''send failed'' ?s1"
    | (closed) "fail_request m c reason s = Normal (?F ?s1)"
    | (sent) s2 where "fail_request m c reason s = Normal (?F s2)"
        "send_to c (Failure (m_id m) reason) ?s1 = Some s2"
    using fail_request_cases[of m c reason s] by blast
  note cases = this
  have i1: "idle r ?s1" if "idle r s"
    using that by (simp add: idle_def delete_conv')
  show "idle r (state_of (fail_request m c reason s))" if "idle r s"
  proof (cases rule: cases)
    case raise
    then show ?thesis using i1[OF that] by simp
  next
    case closed
    then show ?thesis using i1[OF that] by simp
  next
    case (sent s2)
    then show ?thesis using i1[OF that] idle_send_to[OF sent(2), of r] by simp
  qed
  show "answered_once r (state_of (fail_request m c reason s))" if "unanswered r s"
  proof -
    have t1: "terminals r c' ?s1 = []" for c'
      using that by (simp add: unanswered_def)
    have gone: "map_of (pendingRequests (?F s2)) r = None" for s2
      using id by (simp add: delete_conv')
    show ?thesis
    proof (cases rule: cases)
      case raise
      then show ?thesis using t1 by (simp add: answered_once_def)
    next
      case closed
      then show ?thesis using t1 by (simp add: answered_once_def)
    next
      case (sent s2)
      have "length (terminals r c' s2) \<le> 1" for c'
        using terminals_send_to[OF sent(2), of r c'] t1[of c'] by simp
      then show ?thesis
        using sent(1) gone[of s2] by (simp add: answered_once_def)
    qed
  qed
qed

lemma validate_from_idle:
  assumes id: "m_id m = r" and idl: "idle r s" and nd: "\<not> dispatched r s"
  shows "(parked r (state_of (validateExtensionClients m c k now s))
            \<and> (unanswered r s \<longrightarrow> unanswered r (state_of (validateExtensionClients m c k now s))))
       \<or> (idle r (state_of (validateExtensionClients m c k now s))
            \<and> (unanswered r s \<longrightarrow> answered_once r (state_of (validateExtensionClients m c k now s))))"
proof (cases "clients_extension s = []")
  case True
  show ?thesis
  proof (cases "k < 3")
    case lt: True
    have none: "map_of (pendingRequestsQueue s) (m_id m) = None"
      using idl id by (simp add: idle_def)
    let ?s' = "s\<lparr>server_timers := AList.update (server_nextTimer s)
                  \<lparr>st_delay = 2000, st_action = RetryValidate m c k\<rparr> (server_timers s),
               server_nextTimer := Suc (server_nextTimer s),
               pendingRequestsQueue := AList.update (m_id m)
                  \<lparr>qi_client = c, qi_timestamp = now, qi_url = m_url m, qi_clientId = c,
                   qi_originalMessage = m, qi_timeoutId = server_nextTimer s\<rparr>
                  (pendingRequestsQueue s)\<rparr>"
    have v: "validateExtensionClients m c k now s = Normal ?s'"
      by (rule validate_queues[OF True lt none])
    have "parked r ?s'"
      using idl nd id by (auto simp: parked_def idle_def update_conv' split: if_splits)
    moreover have "unanswered r ?s'" if "unanswered r s"
      using that by (simp add: unanswered_def)
    ultimately show ?thesis unfolding v by simp
  next
    case False
    then have v: "validateExtensionClients m c k now s =
        fail_request m c ''No extension clients available after maximum retries'' s"
      using True by (simp add: validateExtensionClients_def)
    show ?thesis
      unfolding v using fail_request_settles[OF id, of s c] idl by blast
  qed
next
  case False
  consider (unsent) "sendToExtension m s = (False, s)"
    | (sent) e s1 where "sendToExtension m s = (True, s1)" "send_to e (Forwarded m) s = Some s1"
    using sendToExtension_cases[of m s] by blast
  then show ?thesis
  proof cases
    case unsent
    let ?f = "fail_request m c ''Failed to send request to extension clients'' s"
    have v: "state_of (validateExtensionClients m c k now s) = count_failed c (state_of ?f)
        \<or> state_of (validateExtensionClients m c k now s) = state_of ?f"
      using False unsent by (cases ?f) (simp_all add: validateExtensionClients_def)
    have i: "idle r (state_of ?f)"
      using fail_request_settles(1)[OF id idl, of c] by simp
    have a: "answered_once r (state_of ?f)" if "unanswered r s"
      using fail_request_settles(2)[OF id that, of c] by simp
    have cf: "answered_once r (count_failed c s2) = answered_once r s2" for s2
      by (simp add: answered_once_def)
    show ?thesis
      using v
    proof
      assume e: "state_of (validateExtensionClients m c k now s) = count_failed c (state_of ?f)"
      show ?thesis unfolding e using i a by (simp add: cf)
    next
      assume e: "state_of (validateExtensionClients m c k now s) = state_of ?f"
      show ?thesis unfolding e using i a by simp
    qed
  next
    case (sent e s1)
    have v: "validateExtensionClients m c k now s = Normal s1"
      using False sent(1) by (simp add: validateExtensionClients_def)
    have "idle r s1" using idl idle_send_to[OF sent(2), of r] by simp
    moreover have "answered_once r s1" if "unanswered r s"
    proof -
      have "terminals r c' s1 = []" for c'
        using terminals_send_to[OF sent(2), of r c'] that by (simp add: unanswered_def)
      then show ?thesis by (simp add: answered_once_def)
    qed
    ultimately show ?thesis unfolding v by simp
  qed
qed


text \<open>The three steps that are about \<^verbatim>\<open>r\<close>: its submission, its retry timer, a response for it.\<close>

lemma request_step:
  assumes id: "m_id m = r" and idl: "idle r s" and nd: "\<not> dispatched r s"
  shows "(parked r (state_of (handleXfetchRequest c m now s))
            \<and> (unanswered r s \<longrightarrow> unanswered r (state_of (handleXfetchRequest c m now s))))
       \<or> (idle r (state_of (handleXfetchRequest c m now s))
            \<and> (unanswered r s \<longrightarrow> answered_once r (state_of (handleXfetchRequest c m now s))))"
proof -
  let ?s1 = "(case map_of (clients_xfetch s) c of
                  None \<Rightarrow> s
                | Some a \<Rightarrow> modify a (\<lambda>cd. cd\<lparr>lastActivity := now\<rparr>) s)"
  let ?s2 = "?s1\<lparr>pendingRequests :=
                    AList.update (m_id m)
                      \<lparr>pr_client = c, pr_timestamp = now, pr_url = m_url m,
                       pr_options = m_options m, pr_clientId = c\<rparr>
                      (pendingRequests ?s1)\<rparr>"
  have h: "handleXfetchRequest c m now s = validateExtensionClients m c 0 now ?s2"
    by (simp add: handleXfetchRequest_def Let_def)
  have i2: "idle r ?s2" using idl by (simp split: option.splits)
  have d2: "\<not> dispatched r ?s2" using nd by (simp split: option.splits)
  have u2: "unanswered r ?s2 = unanswered r s"
    by (simp add: unanswered_def split: option.splits)
  show ?thesis
    unfolding h using validate_from_idle[OF id i2 d2, of c 0 now] u2 by simp
qed

lemma retry_step:
  assumes tm: "map_of (server_timers s) t = Some tm" and rt: "retry_of r (st_action tm)"
    and pk: "parked r s"
  shows "(parked r (state_of (server_fire t now s))
            \<and> (unanswered r s \<longrightarrow> unanswered r (state_of (server_fire t now s))))
       \<or> (idle r (state_of (server_fire t now s))
            \<and> (unanswered r s \<longrightarrow> answered_once r (state_of (server_fire t now s))))"
proof -
  obtain m c k where act: "st_action tm = RetryValidate m c k" and id: "m_id m = r"
    using rt by (cases "st_action tm") simp_all
  have tm': "map_of (server_timers s) t = Some \<lparr>st_delay = st_delay tm, st_action = RetryValidate m c k\<rparr>"
    using tm act by (cases tm) simp
  let ?s1 = "s\<lparr>server_timers := AList.delete t (server_timers s),
          pendingRequestsQueue := AList.delete (m_id m) (pendingRequestsQueue s)\<rparr>"
  have f: "server_fire t now s = validateExtensionClients m c (k + 1) now ?s1"
    by (rule server_fire_retry[OF tm'])
  obtain q where q: "map_of (pendingRequestsQueue s) r = Some q"
      "\<forall>t tm. map_of (server_timers s) t = Some tm \<and> retry_of r (st_action tm) \<longrightarrow> t = qi_timeoutId q"
    and nd: "\<not> dispatched r s"
    using pk by (auto simp: parked_def)
  have tq: "t = qi_timeoutId q" using q(2) tm rt by blast
  have i1: "idle r ?s1"
    unfolding idle_def
  proof (intro conjI allI impI)
    show "map_of (pendingRequestsQueue ?s1) r = None" using id by (simp add: delete_conv')
  next
    fix t' tm' assume a: "map_of (server_timers ?s1) t' = Some tm'"
    then have "t' \<noteq> t" "map_of (server_timers s) t' = Some tm'"
      by (auto simp: delete_conv' split: if_splits)
    then show "\<not> retry_of r (st_action tm')" using q(2) tq by blast
  qed
  have d1: "\<not> dispatched r ?s1" using nd by simp
  have u1: "unanswered r ?s1 = unanswered r s" by (simp add: unanswered_def)
  show ?thesis
    unfolding f using validate_from_idle[OF id i1 d1, of c "k + 1" now] u1 by simp
qed

lemma response_route:
  "pendingRequestsQueue (handleExtensionResponse e m now s) = pendingRequestsQueue s"
  "server_timers (handleExtensionResponse e m now s) = server_timers s"
  "dispatched r (handleExtensionResponse e m now s) = dispatched r s"
proof -
  show "pendingRequestsQueue (handleExtensionResponse e m now s) = pendingRequestsQueue s"
    "server_timers (handleExtensionResponse e m now s) = server_timers s"
    by (simp_all add: handleExtensionResponse_def Let_def touch_def[symmetric] split: option.splits)
  show "dispatched r (handleExtensionResponse e m now s) = dispatched r s"
  proof (cases "map_of (pendingRequests s) (r_id m)")
    case None
    then show ?thesis by (simp add: handleExtensionResponse_absent dispatched_iff)
  next
    case (Some p)
    show ?thesis
      by (auto simp add: dispatched_iff handleExtensionResponse_present(2)[OF Some])
  qed
qed


lemma response_idle: "idle r s \<Longrightarrow> idle r (handleExtensionResponse e m now s)"
  by (simp add: idle_def response_route)

lemma response_answered_once:
  assumes "answered_once r s" "r_id m = r"
  shows "answered_once r (handleExtensionResponse e m now s)"
proof (cases "map_of (pendingRequests s) (r_id m)")
  case None
  then show ?thesis
    using assms by (simp add: handleExtensionResponse_absent answered_once_def terminals_def)
next
  case (Some p)
  have none: "terminals r c s = []" for c
    using assms Some by (auto simp: answered_once_def dest!: spec[of _ c])
  have "length (terminals r c (handleExtensionResponse e m now s)) \<le> 1" for c
    using none[of c] by (simp add: terminals_def handleExtensionResponse_present(2)[OF Some])
  then show ?thesis
    using assms(2) by (simp add: answered_once_def pending_after_response)
qed


text \<open>Every other event is calm for \<^verbatim>\<open>r\<close>.\<close>

lemma calm_step:
  assumes "\<not> submits r ev"
    and "\<And>e m now. ev = Response e m now \<Longrightarrow> r_id m \<noteq> r"
    and "\<And>t now tm. ev = TimerFires t now \<Longrightarrow> map_of (server_timers s) t = Some tm \<Longrightarrow>
           \<not> retry_of r (st_action tm)"
  shows "calm r s (server_step ev s)"
proof (cases ev)
  case (Connect c)
  then show ?thesis by (simp add: calm_connection)
next
  case (Identify c t now)
  then show ?thesis by (simp add: calm_handleClientIdentification)
next
  case (Request c m now)
  then show ?thesis using assms(1) by (simp add: calm_handleXfetchRequest)
next
  case (Response e m now)
  then show ?thesis using assms(2) by (simp add: calm_handleExtensionResponse)
next
  case (PongFrom c now)
  then show ?thesis by (simp add: calm_handlePongResponse)
next
  case (Tick now)
  then show ?thesis by (simp add: calm_heartbeatTick)
next
  case (TimerFires t now)
  then show ?thesis using assms(3) by (simp add: calm_server_fire)
next
  case (PingFrom c now)
  then show ?thesis by (simp add: calm_handlePing)
next
  case (Close c now)
  then show ?thesis by (simp add: calm_closeHandler)
next
  case (Cleanup now)
  then show ?thesis by (simp add: calm_cleanupTick)
qed

text \<open>An event is about \<^verbatim>\<open>r\<close> when it is a response for it or the firing of one of its retry timers.\<close>

lemma step_cases:
  assumes "\<not> submits r ev"
  obtains (response) e m now where "ev = Response e m now" "r_id m = r"
    | (retry) t now tm where "ev = TimerFires t now" "map_of (server_timers s) t = Some tm"
        "retry_of r (st_action tm)"
    | (other) "calm r s (server_step ev s)"
proof (cases "(\<exists>e m now. ev = Response e m now \<and> r_id m = r)
    \<or> (\<exists>t now tm. ev = TimerFires t now \<and> map_of (server_timers s) t = Some tm \<and> retry_of r (st_action tm))")
  case True
  then show ?thesis using response retry by blast
next
  case False
  then have "calm r s (server_step ev s)"
    by (intro calm_step[OF assms]) blast+
  then show ?thesis by (rule other)
qed





lemma broker_start_fresh:
  "idle r broker_start" "\<not> dispatched r broker_start" "unanswered r broker_start"
  "map_of (pendingRequests broker_start) r = None"
  by (simp_all add: idle_def dispatched_def unanswered_def terminals_def outbox_def broker_start_def)


text \<open>
  If moreover the executors answer \<^verbatim>\<open>r\<close> in turn, no connection is ever sent a second
  terminal frame for it.
\<close>

lemma once_step:
  assumes inv: "(parked r s \<and> unanswered r s) \<or> (idle r s \<and> answered_once r s)"
    and ns: "\<not> submits r ev" and turn: "in_turn r ev s"
  shows "(parked r (server_step ev s) \<and> unanswered r (server_step ev s))
       \<or> (idle r (server_step ev s) \<and> answered_once r (server_step ev s))"
  using ns
proof (cases rule: step_cases[where s = s])
  case (response e m now)
  then have "dispatched r s" using turn by simp
  then have "idle r s" "answered_once r s" using inv by (auto simp: parked_def)
  then show ?thesis using response by (simp add: response_idle response_answered_once)
next
  case (retry t now tm)
  have "parked r s \<and> unanswered r s" using inv retry(2,3) by (auto simp: idle_def)
  then show ?thesis using retry_step[OF retry(2,3), of now] retry(1) by auto
next
  case other
  then show ?thesis
    using inv calm_parked calm_idle calm_unanswered calm_answered_once by blast
qed

lemma unknown_step:
  assumes idl: "idle r s" and nd: "\<not> dispatched r s" and un: "unanswered r s"
    and ne: "map_of (pendingRequests s) r = None"
    and ns: "\<not> submits r ev" and turn: "in_turn r ev s"
  shows "idle r (server_step ev s) \<and> \<not> dispatched r (server_step ev s)
       \<and> unanswered r (server_step ev s) \<and> map_of (pendingRequests (server_step ev s)) r = None"
  using ns
proof (cases rule: step_cases[where s = s])
  case (response e m now)
  then show ?thesis using turn nd by simp
next
  case (retry t now tm)
  then show ?thesis using idl by (auto simp: idle_def)
next
  case other
  then show ?thesis
    using idl nd un ne calm_idle calm_undispatched calm_unanswered calm_no_entry by blast
qed

lemma once_settled:
  "(parked r s \<and> unanswered r s) \<or> (idle r s \<and> answered_once r s) \<Longrightarrow>
   filter (submits r) es = [] \<Longrightarrow> answered_in_turn r es s \<Longrightarrow>
   (parked r (server_run es s) \<and> unanswered r (server_run es s))
   \<or> (idle r (server_run es s) \<and> answered_once r (server_run es s))"
proof (induction es arbitrary: s)
  case Nil
  then show ?case by (simp add: server_run_def)
next
  case (Cons ev es)
  have ns: "\<not> submits r ev" and rest: "filter (submits r) es = []"
    using Cons.prems(2) by (auto split: if_splits)
  have turn: "in_turn r ev s" and after: "answered_in_turn r es (server_step ev s)"
    using Cons.prems(3) by simp_all
  show ?case
    using Cons.IH[OF once_step[OF Cons.prems(1) ns turn] rest after] by (simp add: server_run_def)
qed

lemma once_fresh:
  "idle r s \<Longrightarrow> \<not> dispatched r s \<Longrightarrow> unanswered r s \<Longrightarrow> map_of (pendingRequests s) r = None \<Longrightarrow>
   length (filter (submits r) es) \<le> 1 \<Longrightarrow> answered_in_turn r es s \<Longrightarrow>
   unanswered r (server_run es s) \<or> answered_once r (server_run es s)"
proof (induction es arbitrary: s)
  case Nil
  then show ?case by (simp add: server_run_def)
next
  case (Cons ev es)
  have turn: "in_turn r ev s" and after: "answered_in_turn r es (server_step ev s)"
    using Cons.prems(6) by simp_all
  show ?case
  proof (cases "submits r ev")
    case True
    then obtain c m now where ev: "ev = Request c m now" "m_id m = r"
      by (cases ev) simp_all
    have rest: "filter (submits r) es = []" using Cons.prems(5) True by simp
    have "(parked r (server_step ev s) \<and> unanswered r (server_step ev s))
        \<or> (idle r (server_step ev s) \<and> answered_once r (server_step ev s))"
      using request_step[OF ev(2) Cons.prems(1,2), of c now] ev(1) Cons.prems(3) by auto
    then show ?thesis using once_settled[OF _ rest after] by (auto simp add: server_run_def)
  next
    case False
    have rest: "length (filter (submits r) es) \<le> 1" using Cons.prems(5) False by simp
    note st = unknown_step[OF Cons.prems(1,2,3,4) False turn]
    show ?thesis
      using Cons.IH[OF _ _ _ _ rest after] st by (simp add: server_run_def)
  qed
qed

lemma one_terminal_frame:
  assumes "length (filter (submits r) es) \<le> 1" "answered_in_turn r es broker_start"
  shows "length (terminals r c (server_run es broker_start)) \<le> 1"
proof -
  have "unanswered r (server_run es broker_start) \<or> answered_once r (server_run es broker_start)"
    using once_fresh[OF broker_start_fresh assms] .
  then show ?thesis
  proof
    assume "unanswered r (server_run es broker_start)"
    then show ?thesis by (simp add: unanswered_def)
  next
    assume "answered_once r (server_run es broker_start)"
    then have "length (terminals r c (server_run es broker_start))
        + (if map_of (pendingRequests (server_run es broker_start)) r = None then 0 else 1) \<le> 1"
      by (simp add: answered_once_def)
    then show ?thesis by (simp split: if_splits)
  qed
qed

text \<open>Both hold at every point of such a timeline, that is, after each of its prefixes.\<close>

lemma answered_in_turn_take:
  "answered_in_turn r es s \<Longrightarrow> answered_in_turn r (take n es) s"
proof (induction es arbitrary: s n)
  case Nil
  then show ?case by simp
next
  case (Cons ev es)
  then show ?case by (cases n) simp_all
qed

lemma submits_take:
  "length (filter (submits r) (take n es)) \<le> length (filter (submits r) es)"
proof -
  have "length (filter (submits r) es) =
      length (filter (submits r) (take n es)) + length (filter (submits r) (drop n es))"
    by (metis append_take_drop_id filter_append length_append)
  then show ?thesis by simp
qed

lemma one_terminal_frame_at_every_point:
  assumes "length (filter (submits r) es) \<le> 1" "answered_in_turn r es broker_start"
  shows "length (terminals r c (server_run (take n es) broker_start)) \<le> 1"
proof -
  have "length (filter (submits r) (take n es)) \<le> 1"
    using submits_take[of r n es] assms(1) by simp
  then show ?thesis
    using answered_in_turn_take[OF assms(2), of n] by (rule one_terminal_frame)
qed


subsection \<open>At most one terminal frame\<close>

text \<open>The definitions a whole timeline is evaluated with.\<close>

lemmas timeline_defs =
  broker_defs routing_defs closeHandler_def handlePing_def cleanupTick_def

lemma answered_twice_facts:
  "length (filter (submits ''r1'') answered_twice) \<le> 1"
  "answered_in_turn ''r1'' answered_twice broker_start"
  "terminals ''r1'' 2 (server_run answered_twice broker_start) = [Answer answer_r1]"
  by (simp_all add: answered_twice_def timeline_defs dispatched_def terminals_def cong: let_weak_cong)

text \<open>
  Claim C1, as the code has it. A response whose id has no in-flight entry does what
  \<^const>\<open>touch\<close> does and no more: no socket, request table, counter or timer changes, and
  the only record written is the answering executor's, whose \<^verbatim>\<open>lastActivity\<close> becomes
  the time of the response. A response whose id has an entry is appended to the frames
  of the requester's connection when that socket is open and takes it, and to no other
  connection's. Either way the id has no entry afterwards, so a second response for it
  reaches no socket; over any sequence of executor responses a connection is sent at
  most one response frame more for an id than it had. And on every timeline of broker
  events from the broker's start on which the id is submitted at most once and is
  answered by executors only once it has been dispatched, at every point of the timeline
  every connection holds at most one terminal frame for the id, a response passed on or
  a failure frame.
\<close>

theorem response_forwarded_once:
  "(map_of (pendingRequests s) (r_id m) = None \<longrightarrow>
      handleExtensionResponse e m now s = touch e now s)
   \<and> sockets (touch e now s) = sockets s
   \<and> pendingRequests (touch e now s) = pendingRequests s
   \<and> pendingRequestsQueue (touch e now s) = pendingRequestsQueue s
   \<and> stats (touch e now s) = stats s
   \<and> server_timers (touch e now s) = server_timers s
   \<and> clients_extension (touch e now s) = clients_extension s
   \<and> clients_xfetch (touch e now s) = clients_xfetch s
   \<and> map_of (objects (touch e now s)) a =
       (if map_of (clients_extension s) e = Some a
        then map_option (\<lambda>cd. cd\<lparr>lastActivity := now\<rparr>) (map_of (objects s) a)
        else map_of (objects s) a)
   \<and> (map_of (pendingRequests s) (r_id m) = Some p \<longrightarrow>
        outbox c (handleExtensionResponse e m now s) =
          outbox c s @ (if c = pr_client p \<and> accepts (pr_client p) s then [Answer m] else []))
   \<and> map_of (pendingRequests (handleExtensionResponse e m now s)) (r_id m) = None
   \<and> (r_id m' = r_id m \<longrightarrow>
        sockets (handleExtensionResponse e' m' now' (handleExtensionResponse e m now s)) =
        sockets (handleExtensionResponse e m now s))
   \<and> length (answers r c (responses rs s)) \<le> Suc (length (answers r c s))
   \<and> (length (filter (submits r) es) \<le> 1 \<and> answered_in_turn r es broker_start \<longrightarrow>
        length (terminals r c (server_run (take n es) broker_start)) \<le> 1)"
proof -
  have second: "sockets (handleExtensionResponse e' m' now' (handleExtensionResponse e m now s)) =
        sockets (handleExtensionResponse e m now s)" if "r_id m' = r_id m"
  proof -
    have "map_of (pendingRequests (handleExtensionResponse e m now s)) (r_id m') = None"
      using that by (simp add: pending_after_response)
    then show ?thesis by (simp add: handleExtensionResponse_absent)
  qed
  have present: "outbox c (handleExtensionResponse e m now s) =
          outbox c s @ (if c = pr_client p \<and> accepts (pr_client p) s then [Answer m] else [])"
    if "map_of (pendingRequests s) (r_id m) = Some p"
    using handleExtensionResponse_present(2)[OF that] .
  have timeline: "length (terminals r c (server_run (take n es) broker_start)) \<le> 1"
    if "length (filter (submits r) es) \<le> 1" "answered_in_turn r es broker_start"
    using that by (rule one_terminal_frame_at_every_point)
  have handler: "(map_of (pendingRequests s) (r_id m) = None \<longrightarrow>
      handleExtensionResponse e m now s = touch e now s)
   \<and> sockets (touch e now s) = sockets s
   \<and> pendingRequests (touch e now s) = pendingRequests s
   \<and> pendingRequestsQueue (touch e now s) = pendingRequestsQueue s
   \<and> stats (touch e now s) = stats s
   \<and> server_timers (touch e now s) = server_timers s
   \<and> clients_extension (touch e now s) = clients_extension s
   \<and> clients_xfetch (touch e now s) = clients_xfetch s
   \<and> map_of (objects (touch e now s)) a =
       (if map_of (clients_extension s) e = Some a
        then map_option (\<lambda>cd. cd\<lparr>lastActivity := now\<rparr>) (map_of (objects s) a)
        else map_of (objects s) a)
   \<and> (map_of (pendingRequests s) (r_id m) = Some p \<longrightarrow>
        outbox c (handleExtensionResponse e m now s) =
          outbox c s @ (if c = pr_client p \<and> accepts (pr_client p) s then [Answer m] else []))
   \<and> map_of (pendingRequests (handleExtensionResponse e m now s)) (r_id m) = None
   \<and> (r_id m' = r_id m \<longrightarrow>
        sockets (handleExtensionResponse e' m' now' (handleExtensionResponse e m now s)) =
        sockets (handleExtensionResponse e m now s))
   \<and> length (answers r c (responses rs s)) \<le> Suc (length (answers r c s))"
    using second present handleExtensionResponse_absent answers_at_most_one touch_objects
    by (simp add: pending_after_response)
  show ?thesis
    using handler timeline by blast
qed

theorem response_forwarded_once_witness:
  "map_of (pendingRequests in_flight) (r_id answer_r1) =
     Some \<lparr>pr_client = 2, pr_timestamp = 100, pr_url = ''https://a.test'', pr_options = JObj [],
           pr_clientId = 2\<rparr>
   \<and> outbox 2 (handleExtensionResponse 1 answer_r1 500 in_flight) =
       outbox 2 in_flight @ [Answer answer_r1]
   \<and> map_of (pendingRequests in_flight) (r_id answer_r9) = None
   \<and> handleExtensionResponse 1 answer_r9 500 in_flight = touch 1 500 in_flight
   \<and> sockets (handleExtensionResponse 1 answer_r1 600 (handleExtensionResponse 1 answer_r1 500 in_flight)) =
       sockets (handleExtensionResponse 1 answer_r1 500 in_flight)
   \<and> length (filter (submits ''r1'') answered_twice) \<le> 1
   \<and> answered_in_turn ''r1'' answered_twice broker_start
   \<and> length (terminals ''r1'' 2 (server_run answered_twice broker_start)) \<le> 1
   \<and> terminals ''r1'' 2 (server_run answered_twice broker_start) = [Answer answer_r1]"
proof -
  have ids: "r_id answer_r1 = ''r1''" "r_id answer_r9 = ''r9''"
    by (simp_all add: answer_r1_def answer_r9_def)
  note t1 = response_forwarded_once[where s = in_flight and m = answer_r1 and e = 1 and now = 500
      and a = 0 and c = 2 and m' = answer_r1 and e' = 1 and now' = 600 and r = "''r1''" and rs = "[]"
      and es = answered_twice and n = "length answered_twice"
      and p = "\<lparr>pr_client = 2, pr_timestamp = 100, pr_url = ''https://a.test'', pr_options = JObj [],
        pr_clientId = 2\<rparr>"]
  note t9 = response_forwarded_once[where s = in_flight and m = answer_r9 and e = 1 and now = 500
      and a = 0 and c = 2 and m' = answer_r9 and e' = 1 and now' = 600 and r = "''r9''" and rs = "[]"
      and es = "[]" and n = 0
      and p = "\<lparr>pr_client = 2, pr_timestamp = 100, pr_url = ''https://a.test'', pr_options = JObj [],
        pr_clientId = 2\<rparr>"]
  have a: "outbox 2 (handleExtensionResponse 1 answer_r1 500 in_flight) =
       outbox 2 in_flight @ [Answer answer_r1]"
    using t1 in_flight_facts(1,3) ids by simp
  have b: "handleExtensionResponse 1 answer_r9 500 in_flight = touch 1 500 in_flight"
    using t9 in_flight_facts(2) ids by simp
  have c: "sockets (handleExtensionResponse 1 answer_r1 600 (handleExtensionResponse 1 answer_r1 500 in_flight)) =
       sockets (handleExtensionResponse 1 answer_r1 500 in_flight)"
    using t1 by simp
  have "length (terminals ''r1'' 2
      (server_run (take (length answered_twice) answered_twice) broker_start)) \<le> 1"
    using t1 answered_twice_facts(1,2) by blast
  then have d: "length (terminals ''r1'' 2 (server_run answered_twice broker_start)) \<le> 1"
    by simp
  have p1: "map_of (pendingRequests in_flight) (r_id answer_r1) =
     Some \<lparr>pr_client = 2, pr_timestamp = 100, pr_url = ''https://a.test'', pr_options = JObj [],
           pr_clientId = 2\<rparr>"
    and p9: "map_of (pendingRequests in_flight) (r_id answer_r9) = None"
    using in_flight_facts(1,2) ids by simp_all
  show ?thesis
    by (intro conjI p1 a p9 b c answered_twice_facts d)
qed

text \<open>
  Claim C1 as stated lets a response without an in-flight entry change no state, and
  has the requester sent at most one terminal frame for every id. With \<^verbatim>\<open>r1\<close> in flight,
  the executor's response for the unknown id \<^verbatim>\<open>r9\<close> at time 500 moves the
  \<^verbatim>\<open>lastActivity\<close> of the executor's record from 0 to 500. When \<^verbatim>\<open>r1\<close> is submitted once
  and an executor answers it while it is still queued and then leaves, the requester is
  sent that response and, at the retry ceiling, the failure frame as well. And when
  the requester submits \<^verbatim>\<open>r1\<close> twice, each time answered in turn, it is sent two responses.
\<close>

theorem second_terminal_frame:
  "map_of (pendingRequests in_flight) (r_id answer_r9) = None
   \<and> map_option lastActivity (map_of (objects in_flight) 0) = Some 0
   \<and> map_option lastActivity (map_of (objects (handleExtensionResponse 1 answer_r9 500 in_flight)) 0) = Some 500
   \<and> length (filter (submits ''r1'') early_answer) = 1
   \<and> terminals ''r1'' 2 (server_run early_answer broker_start) =
       [Answer answer_r1, Failure ''r1'' ''No extension clients available after maximum retries'']
   \<and> answered_in_turn ''r1'' asked_twice broker_start
   \<and> terminals ''r1'' 2 (server_run asked_twice broker_start) = [Answer answer_r1, Answer answer_r1]"
proof -
  have "handleExtensionResponse 1 answer_r9 500 in_flight = touch 1 500 in_flight"
    using in_flight_facts(2) by (simp add: handleExtensionResponse_absent answer_r9_def)
  then have touched: "map_of (pendingRequests in_flight) (r_id answer_r9) = None
     \<and> map_option lastActivity (map_of (objects in_flight) 0) = Some 0
     \<and> map_option lastActivity (map_of (objects (handleExtensionResponse 1 answer_r9 500 in_flight)) 0) = Some 500"
    using in_flight_facts(2,4,5) by (auto simp add: touch_objects answer_r9_def)
  have early: "length (filter (submits ''r1'') early_answer) = 1"
    "terminals ''r1'' 2 (server_run early_answer broker_start) =
       [Answer answer_r1, Failure ''r1'' ''No extension clients available after maximum retries'']"
    by (simp_all add: early_answer_def timeline_defs terminals_def cong: let_weak_cong)
  have twice: "answered_in_turn ''r1'' asked_twice broker_start"
    "terminals ''r1'' 2 (server_run asked_twice broker_start) = [Answer answer_r1, Answer answer_r1]"
    by (simp_all add: asked_twice_def timeline_defs dispatched_def terminals_def cong: let_weak_cong)
  show ?thesis
    using touched early twice by (intro conjI) simp_all
qed

subsection \<open>The two request tables\<close>







end
